theory Spec2Isabelle
  imports
    Main
    "HOL-Library.Word"
    "HOL-Library.List_Lexorder"
    "HOL-Library.Product_Lexorder"
    "HOL-Library.Multiset"
begin

section \<open>JavaScript values used by the signer and the client\<close>

text \<open>
  A JavaScript string is a sequence of 16-bit code units. String literals of the
  source are written with \<open>js\<close>, which maps each (ASCII) character to its code unit.
\<close>

type_synonym code_unit = "16 word"
type_synonym jsstring = "code_unit list"

definition js :: "string \<Rightarrow> jsstring" where
  "js s = map of_char s"

text \<open>
  What a \<open>throw\<close> carries: an \<open>Error\<close> object (of some built-in class, with its
  message) or any other value, for which \<open>instanceof Error\<close> is false. The message
  texts of the built-in errors are the ones of V8 (Node.js).
\<close>

datatype error_class = PlainError | TypeError | URIError | SyntaxError

datatype thrown = ErrorObject error_class jsstring | NonErrorValue

definition then_do :: "thrown + 'a \<Rightarrow> ('a \<Rightarrow> thrown + 'b) \<Rightarrow> thrown + 'b" where
  "then_do r f = (case r of Inl e \<Rightarrow> Inl e | Inr x \<Rightarrow> f x)"

text \<open>
  An object of type \<open>Record<string, string>\<close> is the list of its own properties in the
  order \<open>Object.entries\<close> enumerates them; the property names of an object are distinct.
\<close>

type_synonym js_object = "(jsstring \<times> jsstring) list"

definition well_formed_object :: "(jsstring \<times> 'v) list \<Rightarrow> bool" where
  "well_formed_object obj = distinct (map fst obj)"

fun join :: "'a list \<Rightarrow> 'a list list \<Rightarrow> 'a list" where
  "join sep [] = []"
| "join sep [x] = x"
| "join sep (x # y # ys) = x @ sep @ join sep (y # ys)"

section \<open>UTF-16, UTF-8 and percent-escapes\<close>

definition is_high_surrogate :: "code_unit \<Rightarrow> bool" where
  "is_high_surrogate c \<longleftrightarrow> 0xD800 \<le> c \<and> c \<le> 0xDBFF"

definition is_low_surrogate :: "code_unit \<Rightarrow> bool" where
  "is_low_surrogate c \<longleftrightarrow> 0xDC00 \<le> c \<and> c \<le> 0xDFFF"

definition surrogate_pair :: "code_unit \<Rightarrow> code_unit \<Rightarrow> nat" where
  "surrogate_pair h l = 0x10000 + (unat h - 0xD800) * 0x400 + (unat l - 0xDC00)"

definition utf8_encode :: "nat \<Rightarrow> nat list" where
  "utf8_encode cp =
     (if cp < 0x80 then [cp]
      else if cp < 0x800 then [0xC0 + cp div 0x40, 0x80 + cp mod 0x40]
      else if cp < 0x10000 then
        [0xE0 + cp div 0x1000, 0x80 + (cp div 0x40) mod 0x40, 0x80 + cp mod 0x40]
      else
        [0xF0 + cp div 0x40000, 0x80 + (cp div 0x1000) mod 0x40,
         0x80 + (cp div 0x40) mod 0x40, 0x80 + cp mod 0x40])"

definition hex_digit :: "nat \<Rightarrow> code_unit" where
  "hex_digit n = (if n < 10 then of_nat (0x30 + n) else of_nat (0x41 + (n - 10)))"

definition percent :: "nat \<Rightarrow> jsstring" where
  "percent b = [0x25, hex_digit (b div 16), hex_digit (b mod 16)]"

definition percent_all :: "nat list \<Rightarrow> jsstring" where
  "percent_all bs = concat (map percent bs)"

definition utf16_units :: "nat \<Rightarrow> jsstring" where
  "utf16_units cp =
     (if cp < 0x10000 then [of_nat cp]
      else [of_nat (0xD800 + (cp - 0x10000) div 0x400),
            of_nat (0xDC00 + (cp - 0x10000) mod 0x400)])"

definition from_code_points :: "nat list \<Rightarrow> jsstring" where
  "from_code_points cps = concat (map utf16_units cps)"

section \<open>The built-ins the signer calls\<close>

text \<open>
  \<open>encodeURIComponent\<close> (ECMAScript, \<open>Encode\<close> with the unescaped set of URI
  components): letters, digits and \<open>- _ . ! ~ * ' ( )\<close> are copied; every other code
  point is written as the percent-escapes of its UTF-8 bytes; an unpaired surrogate
  throws a \<open>URIError\<close>.
\<close>

definition uri_unescaped :: "code_unit \<Rightarrow> bool" where
  "uri_unescaped c \<longleftrightarrow>
     (0x41 \<le> c \<and> c \<le> 0x5A) \<or> (0x61 \<le> c \<and> c \<le> 0x7A) \<or> (0x30 \<le> c \<and> c \<le> 0x39)
     \<or> c \<in> set [0x2D, 0x5F, 0x2E, 0x21, 0x7E, 0x2A, 0x27, 0x28, 0x29]"

definition uri_malformed :: thrown where
  "uri_malformed = ErrorObject URIError (js ''URI malformed'')"

fun encodeURIComponent :: "jsstring \<Rightarrow> thrown + jsstring" where
  "encodeURIComponent [] = Inr []"
| "encodeURIComponent (c # cs) =
     (if uri_unescaped c then map_sum id ((#) c) (encodeURIComponent cs)
      else if is_low_surrogate c then Inl uri_malformed
      else if is_high_surrogate c then
        (case cs of
           [] \<Rightarrow> Inl uri_malformed
         | d # ds \<Rightarrow>
             if is_low_surrogate d
             then map_sum id ((@) (percent_all (utf8_encode (surrogate_pair c d))))
                    (encodeURIComponent ds)
             else Inl uri_malformed)
      else map_sum id ((@) (percent_all (utf8_encode (unat c)))) (encodeURIComponent cs))"

text \<open>
  What the host supplies and the model does not compute: the digest
  \<open>crypto.createHmac('sha1', key).update(data).digest('base64')\<close> of Node's \<open>crypto\<close>
  module (key first, then data), and the upper-case mapping of the Unicode Character
  Database for the code points from \<open>0x80\<close> on (a code point is mapped to one or more
  code points).
\<close>

record runtime =
  hmac_sha1_base64 :: "jsstring \<Rightarrow> jsstring \<Rightarrow> jsstring"
  unicode_upper :: "nat \<Rightarrow> nat list"

text \<open>
  \<open>String.prototype.toUpperCase\<close>: the code points of the string (an unpaired surrogate
  is the code point of its code unit) are mapped one by one and written back as UTF-16.
  On ASCII \<open>a\<close>..\<open>z\<close> become \<open>A\<close>..\<open>Z\<close> and every other code point is kept; from
  \<open>0x80\<close> on the mapping is the host's.
\<close>

fun string_code_points :: "jsstring \<Rightarrow> nat list" where
  "string_code_points [] = []"
| "string_code_points (c # cs) =
     (if is_high_surrogate c then
        (case cs of
           [] \<Rightarrow> [unat c]
         | d # ds \<Rightarrow>
             if is_low_surrogate d then surrogate_pair c d # string_code_points ds
             else unat c # string_code_points cs)
      else unat c # string_code_points cs)"

definition upper_code_point :: "runtime \<Rightarrow> nat \<Rightarrow> nat list" where
  "upper_code_point rt cp =
     (if cp < 0x80 then [if 0x61 \<le> cp \<and> cp \<le> 0x7A then cp - 0x20 else cp]
      else unicode_upper rt cp)"

definition toUpperCase :: "runtime \<Rightarrow> jsstring \<Rightarrow> jsstring" where
  "toUpperCase rt s =
     from_code_points (concat (map (upper_code_point rt) (string_code_points s)))"

text \<open>
  \<open>String.prototype.localeCompare\<close> with no locale argument compares by the collation
  of the host's default locale. The model is the CLDR root collation (the one of
  \<open>en\<close>, \<open>ja\<close> and most locales) on the characters \<open>encodeURIComponent\<close> can emit:
  primary weights order \<open>_ - ! . ' ( ) * % ~\<close> before the digits and the digits before
  the letters, a letter has the same primary weight in both cases, and on equal primary
  weights the first case difference decides, lower case first. Other code units are
  ranked after the letters by their value; they never reach the comparison here.
\<close>

definition punctuation_rank :: "code_unit \<Rightarrow> nat option" where
  "punctuation_rank c =
     map_of [(0x5F, 1), (0x2D, 2), (0x21, 3), (0x2E, 4), (0x27, 5),
             (0x28, 6), (0x29, 7), (0x2A, 8), (0x25, 9), (0x7E, 10)] c"

definition primary_weight :: "code_unit \<Rightarrow> nat" where
  "primary_weight c =
     (if 0x61 \<le> c \<and> c \<le> 0x7A then 21 + (unat c - 0x61)
      else if 0x41 \<le> c \<and> c \<le> 0x5A then 21 + (unat c - 0x41)
      else if 0x30 \<le> c \<and> c \<le> 0x39 then 11 + (unat c - 0x30)
      else case punctuation_rank c of Some r \<Rightarrow> r | None \<Rightarrow> 100 + unat c)"

definition tertiary_weight :: "code_unit \<Rightarrow> nat" where
  "tertiary_weight c = (if 0x41 \<le> c \<and> c \<le> 0x5A then 1 else 0)"

fun compare_weights :: "nat list \<Rightarrow> nat list \<Rightarrow> int" where
  "compare_weights [] [] = 0"
| "compare_weights [] (y # ys) = -1"
| "compare_weights (x # xs) [] = 1"
| "compare_weights (x # xs) (y # ys) =
     (if x < y then -1 else if y < x then 1 else compare_weights xs ys)"

definition localeCompare :: "jsstring \<Rightarrow> jsstring \<Rightarrow> int" where
  "localeCompare a b =
     (let p = compare_weights (map primary_weight a) (map primary_weight b)
      in if p \<noteq> 0 then p
         else compare_weights (map tertiary_weight a) (map tertiary_weight b))"

text \<open>
  \<open>Array.prototype.sort\<close> with a comparison function. The sort is stable: an element is
  placed before the first one it does not compare greater than.
\<close>

fun sort_insert :: "('a \<Rightarrow> 'a \<Rightarrow> int) \<Rightarrow> 'a \<Rightarrow> 'a list \<Rightarrow> 'a list" where
  "sort_insert cmp x [] = [x]"
| "sort_insert cmp x (y # ys) =
     (if cmp x y \<le> 0 then x # y # ys else y # sort_insert cmp x ys)"

definition array_sort :: "('a \<Rightarrow> 'a \<Rightarrow> int) \<Rightarrow> 'a list \<Rightarrow> 'a list" where
  "array_sort cmp xs = foldr (sort_insert cmp) xs []"

section \<open>The signer\<close>

fun encode_entries :: "js_object \<Rightarrow> thrown + js_object" where
  "encode_entries [] = Inr []"
| "encode_entries ((key, val) # rest) =
     then_do (encodeURIComponent key) (\<lambda>k.
     then_do (encodeURIComponent val) (\<lambda>v.
     map_sum id ((#) (k, v)) (encode_entries rest)))"

definition normalizeParameters :: "js_object \<Rightarrow> thrown + jsstring" where
  "normalizeParameters parameters =
     map_sum id
       (\<lambda>encoded.
          join (js ''&'')
            (map (\<lambda>(key, val). key @ js ''='' @ val)
               (array_sort (\<lambda>a b. localeCompare (fst a) (fst b)) encoded)))
       (encode_entries parameters)"

definition constructBaseString ::
  "runtime \<Rightarrow> jsstring \<Rightarrow> jsstring \<Rightarrow> jsstring \<Rightarrow> thrown + jsstring" where
  "constructBaseString rt method url normalizedParams =
     then_do (encodeURIComponent url) (\<lambda>encodedUrl.
     then_do (encodeURIComponent normalizedParams) (\<lambda>encodedParams.
     Inr (join (js ''&'') [toUpperCase rt method, encodedUrl, encodedParams])))"

text \<open>
  The optional \<open>tokenSecret\<close> is \<open>None\<close> when the argument is left out; the test
  \<open>tokenSecret ? ... : ''\<close> is also false for the empty string.
\<close>

definition constructSigningKey :: "jsstring \<Rightarrow> jsstring option \<Rightarrow> thrown + jsstring" where
  "constructSigningKey consumerSecret tokenSecret =
     then_do (encodeURIComponent consumerSecret) (\<lambda>encodedConsumerSecret.
     then_do (case tokenSecret of
                None \<Rightarrow> Inr []
              | Some t \<Rightarrow> if t \<noteq> [] then encodeURIComponent t else Inr [])
       (\<lambda>encodedTokenSecret.
     Inr (encodedConsumerSecret @ js ''&'' @ encodedTokenSecret)))"

definition generateOAuthSignature ::
  "runtime \<Rightarrow> jsstring \<Rightarrow> jsstring \<Rightarrow> js_object \<Rightarrow> jsstring \<Rightarrow>
   jsstring option \<Rightarrow> thrown + jsstring" where
  "generateOAuthSignature rt method url parameters consumerSecret tokenSecret =
     then_do (normalizeParameters parameters) (\<lambda>normalizedParams.
     then_do (constructBaseString rt method url normalizedParams) (\<lambda>baseString.
     then_do (constructSigningKey consumerSecret tokenSecret) (\<lambda>signingKey.
     Inr (hmac_sha1_base64 rt signingKey baseString))))"

section \<open>Scalar value strings and the UTF-8 decoder\<close>

text \<open>
  The conversion of a JavaScript string to a scalar value string (Web IDL
  \<open>USVString\<close>): the code points of the string, an unpaired surrogate replaced by
  U+FFFD.
\<close>

fun code_points :: "jsstring \<Rightarrow> nat list" where
  "code_points [] = []"
| "code_points (c # cs) =
     (if is_high_surrogate c then
        (case cs of
           [] \<Rightarrow> [0xFFFD]
         | d # ds \<Rightarrow>
             if is_low_surrogate d then surrogate_pair c d # code_points ds
             else 0xFFFD # code_points cs)
      else if is_low_surrogate c then 0xFFFD # code_points cs
      else unat c # code_points cs)"

definition utf8_bytes :: "jsstring \<Rightarrow> nat list" where
  "utf8_bytes s = concat (map utf8_encode (code_points s))"

text \<open>
  The UTF-8 decoder of the Encoding standard (``UTF-8 decode without BOM''): a byte that
  cannot continue the sequence in progress gives U+FFFD and is then read again as the
  first byte of a sequence; input that ends inside a sequence gives U+FFFD. The state
  \<open>Need k cp lo hi\<close> holds the bytes still needed, the code point so far and the
  bounds of the next byte.
\<close>

datatype utf8_state = Start | Need nat nat nat nat

definition utf8_lead :: "nat \<Rightarrow> nat list \<times> utf8_state" where
  "utf8_lead b =
     (if b \<le> 0x7F then ([b], Start)
      else if 0xC2 \<le> b \<and> b \<le> 0xDF then ([], Need 1 (b mod 0x20) 0x80 0xBF)
      else if 0xE0 \<le> b \<and> b \<le> 0xEF then
        ([], Need 2 (b mod 0x10) (if b = 0xE0 then 0xA0 else 0x80)
               (if b = 0xED then 0x9F else 0xBF))
      else if 0xF0 \<le> b \<and> b \<le> 0xF4 then
        ([], Need 3 (b mod 0x08) (if b = 0xF0 then 0x90 else 0x80)
               (if b = 0xF4 then 0x8F else 0xBF))
      else ([0xFFFD], Start))"

definition utf8_step :: "utf8_state \<Rightarrow> nat \<Rightarrow> nat list \<times> utf8_state" where
  "utf8_step st b =
     (case st of
        Start \<Rightarrow> utf8_lead b
      | Need k cp lo hi \<Rightarrow>
          if lo \<le> b \<and> b \<le> hi then
            (if k = 1 then ([cp * 0x40 + b mod 0x40], Start)
             else ([], Need (k - 1) (cp * 0x40 + b mod 0x40) 0x80 0xBF))
          else (0xFFFD # fst (utf8_lead b), snd (utf8_lead b)))"

fun utf8_decode :: "utf8_state \<Rightarrow> nat list \<Rightarrow> nat list" where
  "utf8_decode st [] = (case st of Start \<Rightarrow> [] | Need k cp lo hi \<Rightarrow> [0xFFFD])"
| "utf8_decode st (b # bs) = fst (utf8_step st b) @ utf8_decode (snd (utf8_step st b)) bs"

section \<open>\<open>URLSearchParams\<close>\<close>

text \<open>
  The \<open>application/x-www-form-urlencoded\<close> serializer and parser of the URL standard.
  The serializer writes a space as \<open>+\<close>, keeps letters, digits and \<open>* - . _\<close>, and
  percent-escapes every other byte of the UTF-8 encoding.
\<close>

definition form_safe_byte :: "nat \<Rightarrow> bool" where
  "form_safe_byte b \<longleftrightarrow>
     b = 0x2A \<or> b = 0x2D \<or> b = 0x2E \<or> (0x30 \<le> b \<and> b \<le> 0x39) \<or>
     (0x41 \<le> b \<and> b \<le> 0x5A) \<or> b = 0x5F \<or> (0x61 \<le> b \<and> b \<le> 0x7A)"

definition form_encode_byte :: "nat \<Rightarrow> jsstring" where
  "form_encode_byte b =
     (if b = 0x20 then [0x2B] else if form_safe_byte b then [of_nat b] else percent b)"

definition form_encode :: "jsstring \<Rightarrow> jsstring" where
  "form_encode s = concat (map form_encode_byte (utf8_bytes s))"

definition urlencoded_serialize :: "(jsstring \<times> jsstring) list \<Rightarrow> jsstring" where
  "urlencoded_serialize tuples =
     join (js ''&'') (map (\<lambda>(name, val). form_encode name @ js ''='' @ form_encode val) tuples)"

definition is_hex_byte :: "nat \<Rightarrow> bool" where
  "is_hex_byte b \<longleftrightarrow>
     (0x30 \<le> b \<and> b \<le> 0x39) \<or> (0x41 \<le> b \<and> b \<le> 0x46) \<or> (0x61 \<le> b \<and> b \<le> 0x66)"

definition hex_value :: "nat \<Rightarrow> nat" where
  "hex_value b = (if b \<le> 0x39 then b - 0x30 else if b \<le> 0x46 then b - 0x37 else b - 0x57)"

fun percent_decode :: "nat list \<Rightarrow> nat list" where
  "percent_decode [] = []"
| "percent_decode (b # bs) =
     (if b = 0x25 then
        (case bs of
           h # l # rest \<Rightarrow>
             if is_hex_byte h \<and> is_hex_byte l
             then (hex_value h * 16 + hex_value l) # percent_decode rest
             else b # percent_decode bs
         | _ \<Rightarrow> b # percent_decode bs)
      else b # percent_decode bs)"

text \<open>
  Splitting at every occurrence of a separator (\<open>String.prototype.split\<close> with a
  one-character separator, and the parser's split of the bytes at \<open>&\<close>), and splitting
  at the first occurrence only (a name from its value at the first \<open>=\<close>).
\<close>

fun split_on :: "'a \<Rightarrow> 'a list \<Rightarrow> 'a list list" where
  "split_on sep [] = [[]]"
| "split_on sep (x # xs) =
     (if x = sep then [] # split_on sep xs
      else (case split_on sep xs of
              [] \<Rightarrow> [[x]]
            | part # parts \<Rightarrow> (x # part) # parts))"

definition split_first :: "'a \<Rightarrow> 'a list \<Rightarrow> 'a list \<times> 'a list" where
  "split_first sep xs = (takeWhile (\<lambda>x. x \<noteq> sep) xs, drop 1 (dropWhile (\<lambda>x. x \<noteq> sep) xs))"

definition form_decode :: "nat list \<Rightarrow> jsstring" where
  "form_decode bytes =
     from_code_points
       (utf8_decode Start (percent_decode (map (\<lambda>b. if b = 0x2B then 0x20 else b) bytes)))"

definition urlencoded_parse :: "jsstring \<Rightarrow> (jsstring \<times> jsstring) list" where
  "urlencoded_parse input =
     map (\<lambda>bytes. (form_decode (fst (split_first 0x3D bytes)),
                   form_decode (snd (split_first 0x3D bytes))))
       (filter (\<lambda>bytes. bytes \<noteq> []) (split_on 0x26 (utf8_bytes input)))"

text \<open>\<open>new URLSearchParams(init)\<close> for a string: a leading \<open>?\<close> is dropped.\<close>

definition URLSearchParams :: "jsstring \<Rightarrow> (jsstring \<times> jsstring) list" where
  "URLSearchParams init =
     urlencoded_parse (case init of [] \<Rightarrow> [] | c # cs \<Rightarrow> if c = 0x3F then cs else init)"

section \<open>Objects, numbers and JSON values\<close>

text \<open>
  The property order of an object: the array indices (canonical decimal names below
  \<open>2^32 - 1\<close>) in ascending order, then the other names in the order of their creation.
  Setting an existing property keeps its place.
\<close>

definition is_digit :: "code_unit \<Rightarrow> bool" where
  "is_digit c \<longleftrightarrow> 0x30 \<le> c \<and> c \<le> 0x39"

definition decimal_value :: "jsstring \<Rightarrow> nat" where
  "decimal_value s = foldl (\<lambda>n c. 10 * n + (unat c - 0x30)) 0 s"

definition array_index :: "jsstring \<Rightarrow> nat option" where
  "array_index name =
     (if name \<noteq> [] \<and> list_all is_digit name \<and> (take 1 name \<noteq> [0x30] \<or> length name = 1)
         \<and> decimal_value name < 2 ^ 32 - 1
      then Some (decimal_value name) else None)"

fun insert_index :: "nat \<Rightarrow> jsstring \<times> 'v \<Rightarrow> (jsstring \<times> 'v) list \<Rightarrow> (jsstring \<times> 'v) list" where
  "insert_index n p [] = [p]"
| "insert_index n p (q # qs) =
     (case array_index (fst q) of
        Some m \<Rightarrow> if m < n then q # insert_index n p qs else p # q # qs
      | None \<Rightarrow> p # q # qs)"

definition set_property :: "jsstring \<Rightarrow> 'v \<Rightarrow> (jsstring \<times> 'v) list \<Rightarrow> (jsstring \<times> 'v) list" where
  "set_property name v obj =
     (if name \<in> fst ` set obj then map (\<lambda>(k, w). if k = name then (k, v) else (k, w)) obj
      else case array_index name of
             Some n \<Rightarrow> insert_index n (name, v) obj
           | None \<Rightarrow> obj @ [(name, v)])"

text \<open>
  The assignment \<open>obj[name] = v\<close> of a string to a property of an ordinary object. For
  the name \<open>__proto__\<close> the assignment reaches the setter of \<open>Object.prototype\<close>, which
  ignores a value that is neither an object nor \<open>null\<close>: nothing is stored.
\<close>

definition assign_property :: "jsstring \<Rightarrow> jsstring \<Rightarrow> js_object \<Rightarrow> js_object" where
  "assign_property name v obj =
     (if name = js ''__proto__'' then obj else set_property name v obj)"

text \<open>
  The object spread \<open>{...target, ...source}\<close>, which defines the properties of the
  source on the target (\<open>__proto__\<close> like any other name): later properties override.
\<close>

definition spread :: "(jsstring \<times> 'v) list \<Rightarrow> (jsstring \<times> 'v) list \<Rightarrow> (jsstring \<times> 'v) list" where
  "spread target source = foldl (\<lambda>obj (name, v). set_property name v obj) target source"

text \<open>
  Numbers are modelled on the integers, where the conversion to a string is the decimal
  numeral (as it is for every integer of magnitude below \<open>10^21\<close>); fractions and
  exponents are outside the model.
\<close>

fun decimal :: "nat \<Rightarrow> jsstring" where
  "decimal n = (if n < 10 then [of_nat (0x30 + n)] else decimal (n div 10) @ [of_nat (0x30 + n mod 10)])"

declare decimal.simps [simp del]

definition number_to_string :: "int \<Rightarrow> jsstring" where
  "number_to_string n = (if n < 0 then js ''-'' @ decimal (nat (- n)) else decimal (nat n))"

text \<open>A value of \<open>RequestParameters\<close> is a string, a number or a boolean.\<close>

datatype param_value = PString jsstring | PNumber int | PBoolean bool

type_synonym request_parameters = "(jsstring \<times> param_value) list"

fun String_of :: "param_value \<Rightarrow> jsstring" where
  "String_of (PString s) = s"
| "String_of (PNumber n) = number_to_string n"
| "String_of (PBoolean b) = (if b then js ''true'' else js ''false'')"

fun starts_with :: "'a list \<Rightarrow> 'a list \<Rightarrow> bool" where
  "starts_with xs [] = True"
| "starts_with [] (y # ys) = False"
| "starts_with (x # xs) (y # ys) = (x = y \<and> starts_with xs ys)"

fun string_includes :: "'a list \<Rightarrow> 'a list \<Rightarrow> bool" where
  "string_includes [] sub = (sub = [])"
| "string_includes (x # xs) sub = (starts_with (x # xs) sub \<or> string_includes xs sub)"

text \<open>
  What \<open>JSON.parse\<close> returns. Reading a property of \<open>null\<close> throws a \<open>TypeError\<close>;
  the names \<open>message\<close> and \<open>error\<close>, the only ones read here, are own properties of an
  object or \<open>undefined\<close> (\<open>None\<close>).
\<close>

datatype json =
    JNull | JBoolean bool | JNumber int | JString jsstring
  | JArray "json list" | JObject "(jsstring \<times> json) list"

definition get_property :: "json \<Rightarrow> jsstring \<Rightarrow> thrown + json option" where
  "get_property v name =
     (case v of
        JNull \<Rightarrow>
          Inl (ErrorObject TypeError
                 (js ''Cannot read properties of null (reading '' @ [0x27] @ name @ [0x27] @ js '')''))
      | JObject props \<Rightarrow> Inr (map_of props name)
      | _ \<Rightarrow> Inr None)"

fun truthy :: "json option \<Rightarrow> bool" where
  "truthy None = False"
| "truthy (Some JNull) = False"
| "truthy (Some (JBoolean b)) = b"
| "truthy (Some (JNumber n)) = (n \<noteq> 0)"
| "truthy (Some (JString s)) = (s \<noteq> [])"
| "truthy (Some (JArray xs)) = True"
| "truthy (Some (JObject props)) = True"

definition js_or :: "json option \<Rightarrow> json option \<Rightarrow> json option" where
  "js_or a b = (if truthy a then a else b)"

text \<open>
  The conversion to a string inside a template literal. An object is converted by its
  \<open>toString\<close> method: a parsed object that has a property of its own named
  \<open>toString\<close> hides the method of \<open>Object.prototype\<close> behind a value that cannot be
  called, and the conversion throws a \<open>TypeError\<close>; any other object gives
  \<open>[object Object]\<close>. An array joins the strings of its elements with commas, \<open>null\<close>
  counting as the empty string.
\<close>

definition cannot_convert :: thrown where
  "cannot_convert = ErrorObject TypeError (js ''Cannot convert object to primitive value'')"

fun to_string :: "json \<Rightarrow> thrown + jsstring"
  and element_strings :: "json list \<Rightarrow> thrown + jsstring list" where
  "to_string JNull = Inr (js ''null'')"
| "to_string (JBoolean b) = Inr (if b then js ''true'' else js ''false'')"
| "to_string (JNumber n) = Inr (number_to_string n)"
| "to_string (JString s) = Inr s"
| "to_string (JArray xs) = map_sum id (join (js '','')) (element_strings xs)"
| "to_string (JObject props) =
     (if js ''toString'' \<in> fst ` set props then Inl cannot_convert
      else Inr (js ''[object Object]''))"
| "element_strings [] = Inr []"
| "element_strings (x # xs) =
     then_do (if x = JNull then Inr [] else to_string x) (\<lambda>s.
     map_sum id ((#) s) (element_strings xs))"

definition template_string :: "json option \<Rightarrow> thrown + jsstring" where
  "template_string v = (case v of None \<Rightarrow> Inr (js ''undefined'') | Some x \<Rightarrow> to_string x)"

section \<open>The API client\<close>

record oauth_config =
  consumerKey :: jsstring
  consumerSecret :: jsstring
  accessToken :: jsstring
  accessTokenSecret :: jsstring

datatype http_method = GET | POST | PUT | DELETE

fun method_name :: "http_method \<Rightarrow> jsstring" where
  "method_name GET = js ''GET''"
| "method_name POST = js ''POST''"
| "method_name PUT = js ''PUT''"
| "method_name DELETE = js ''DELETE''"

text \<open>
  A \<open>Response\<close>: its status and what \<open>response.json()\<close> settles to; \<open>response.ok\<close> is
  true for the statuses 200 to 299.
\<close>

record response =
  status :: nat
  json_body :: "thrown + json"

definition ok :: "response \<Rightarrow> bool" where
  "ok r \<longleftrightarrow> 200 \<le> status r \<and> status r \<le> 299"

record request_options =
  http_method :: http_method
  headers :: "(jsstring \<times> jsstring) list"
  body :: "jsstring option"

text \<open>
  What a call reads from outside: the two \<open>Math.random().toString(36)\<close> strings of the
  nonce and \<open>Date.now()\<close>. The transport \<open>fetch\<close> is a parameter of \<open>request\<close>.
\<close>

record environment =
  random1 :: jsstring
  random2 :: jsstring
  now :: nat

definition throw_error :: "jsstring \<Rightarrow> thrown + 'a" where
  "throw_error message = Inl (ErrorObject PlainError message)"

definition validateConfig :: "oauth_config \<Rightarrow> thrown + unit" where
  "validateConfig config =
     (if consumerKey config = [] then throw_error (js ''consumerKey is required'')
      else if consumerSecret config = [] then throw_error (js ''consumerSecret is required'')
      else if accessToken config = [] then throw_error (js ''accessToken is required'')
      else if accessTokenSecret config = [] then throw_error (js ''accessTokenSecret is required'')
      else Inr ())"

text \<open>The constructor; the state of a client is its configuration.\<close>

definition new_ZaimApiClient :: "oauth_config \<Rightarrow> thrown + oauth_config" where
  "new_ZaimApiClient config = then_do (validateConfig config) (\<lambda>_. Inr config)"

definition baseUrl :: jsstring where
  "baseUrl = js ''https://api.zaim.net''"

definition buildUrl :: "jsstring \<Rightarrow> request_parameters option \<Rightarrow> jsstring" where
  "buildUrl endpoint queryParams =
     (case queryParams of
        None \<Rightarrow> baseUrl @ endpoint
      | Some q \<Rightarrow>
          if length q > 0
          then baseUrl @ endpoint @ js ''?'' @
               urlencoded_serialize (map (\<lambda>(key, val). (key, String_of val)) q)
          else baseUrl @ endpoint)"

definition buildRequestParameters :: "request_parameters option \<Rightarrow> js_object" where
  "buildRequestParameters data =
     (case data of
        None \<Rightarrow> []
      | Some d \<Rightarrow> foldl (\<lambda>params (key, val). assign_property key (String_of val) params) [] d)"

definition generateNonce :: "environment \<Rightarrow> jsstring" where
  "generateNonce env = take 13 (drop 2 (random1 env)) @ take 13 (drop 2 (random2 env))"

definition generateTimestamp :: "environment \<Rightarrow> jsstring" where
  "generateTimestamp env = decimal (now env div 1000)"

definition oauthParams :: "oauth_config \<Rightarrow> environment \<Rightarrow> js_object" where
  "oauthParams config env =
     [(js ''oauth_consumer_key'', consumerKey config),
      (js ''oauth_nonce'', generateNonce env),
      (js ''oauth_signature_method'', js ''HMAC-SHA1''),
      (js ''oauth_timestamp'', generateTimestamp env),
      (js ''oauth_token'', accessToken config),
      (js ''oauth_version'', js ''1.0'')]"

text \<open>
  The destructuring \<open>const [baseUrl, queryString] = url.split('?')\<close>: the first two
  parts, the second \<open>undefined\<close> (\<open>None\<close>) when there is no \<open>?\<close>.
\<close>

definition signed_url :: "jsstring \<Rightarrow> jsstring" where
  "signed_url url = (case split_on 0x3F url of [] \<Rightarrow> [] | part # parts \<Rightarrow> part)"

definition queryString :: "jsstring \<Rightarrow> jsstring option" where
  "queryString url = (case split_on 0x3F url of part # q # parts \<Rightarrow> Some q | _ \<Rightarrow> None)"

definition queryParams_of :: "jsstring \<Rightarrow> js_object" where
  "queryParams_of url =
     (case queryString url of
        None \<Rightarrow> []
      | Some q \<Rightarrow>
          if q \<noteq> []
          then foldl (\<lambda>obj (key, val). assign_property key val obj) [] (URLSearchParams q)
          else [])"

definition allParams :: "oauth_config \<Rightarrow> environment \<Rightarrow> jsstring \<Rightarrow> js_object \<Rightarrow> js_object" where
  "allParams config env url requestParams =
     spread (spread (spread [] (oauthParams config env)) requestParams) (queryParams_of url)"

fun header_parts :: "js_object \<Rightarrow> thrown + jsstring list" where
  "header_parts [] = Inr []"
| "header_parts ((key, val) # rest) =
     then_do (encodeURIComponent val) (\<lambda>v.
     map_sum id ((#) (key @ js ''='' @ [0x22] @ v @ [0x22])) (header_parts rest))"

definition buildAuthorizationHeader :: "js_object \<Rightarrow> thrown + jsstring" where
  "buildAuthorizationHeader params =
     map_sum id (\<lambda>headerParts. js ''OAuth '' @ join (js '', '') headerParts) (header_parts params)"

definition generateAuthHeader ::
  "runtime \<Rightarrow> oauth_config \<Rightarrow> environment \<Rightarrow> http_method \<Rightarrow>
   jsstring \<Rightarrow> js_object \<Rightarrow> thrown + jsstring" where
  "generateAuthHeader rt config env method url requestParams =
     then_do
       (generateOAuthSignature rt (method_name method) (signed_url url)
          (allParams config env url requestParams)
          (consumerSecret config) (Some (accessTokenSecret config)))
       (\<lambda>signature.
          buildAuthorizationHeader
            (spread (spread [] (oauthParams config env)) [(js ''oauth_signature'', signature)]))"

definition encodeFormData :: "js_object \<Rightarrow> thrown + jsstring" where
  "encodeFormData params =
     map_sum id (\<lambda>encoded. join (js ''&'') (map (\<lambda>(key, val). key @ js ''='' @ val) encoded))
       (encode_entries params)"

definition handleResponse :: "response \<Rightarrow> thrown + json" where
  "handleResponse r =
     (let responseData = (case json_body r of Inl e \<Rightarrow> JObject [] | Inr v \<Rightarrow> v)
      in if \<not> ok r then
           then_do (get_property responseData (js ''message'')) (\<lambda>message.
           then_do (if truthy message then Inr message
                    else get_property responseData (js ''error'')) (\<lambda>message_or_error.
           then_do (template_string
                      (js_or message_or_error (Some (JString (js ''Unknown error''))))) (\<lambda>errorMessage.
           throw_error
             (js ''Zaim API Error: '' @ decimal (status r) @ js '' - '' @ errorMessage))))
         else Inr responseData)"

definition request_options_of ::
  "http_method \<Rightarrow> jsstring \<Rightarrow> request_parameters option \<Rightarrow> js_object \<Rightarrow> thrown + request_options" where
  "request_options_of method authHeader data requestParams =
     (let base_headers = [(js ''Authorization'', authHeader),
                          (js ''User-Agent'', js ''Zaim-MCP-Client/1.0'')]
      in if (method = POST \<or> method = PUT) \<and> data \<noteq> None then
           map_sum id
             (\<lambda>form. \<lparr>http_method = method,
                      headers = spread base_headers
                        [(js ''Content-Type'', js ''application/x-www-form-urlencoded'')],
                      body = Some form\<rparr>)
             (encodeFormData requestParams)
         else Inr \<lparr>http_method = method, headers = base_headers, body = None\<rparr>)"

definition request_body ::
  "runtime \<Rightarrow> (jsstring \<Rightarrow> request_options \<Rightarrow> thrown + response) \<Rightarrow>
   oauth_config \<Rightarrow> environment \<Rightarrow> http_method \<Rightarrow> jsstring \<Rightarrow> request_parameters option \<Rightarrow>
   request_parameters option \<Rightarrow> thrown + json" where
  "request_body rt fetch config env method endpoint data queryParams =
     (let url = buildUrl endpoint queryParams;
          requestParams = buildRequestParameters data
      in then_do (generateAuthHeader rt config env method url requestParams) (\<lambda>authHeader.
         then_do (request_options_of method authHeader data requestParams) (\<lambda>requestOptions.
         then_do (fetch url requestOptions) handleResponse)))"

text \<open>
  \<open>request\<close>: the \<open>try\<close> block is \<open>request_body\<close>; the \<open>catch\<close> clause rethrows an
  \<open>Error\<close> whose message contains \<open>Zaim API Error\<close>, wraps any other \<open>Error\<close>, and
  replaces a thrown value that is not an \<open>Error\<close>.
\<close>

definition request ::
  "runtime \<Rightarrow> (jsstring \<Rightarrow> request_options \<Rightarrow> thrown + response) \<Rightarrow>
   oauth_config \<Rightarrow> environment \<Rightarrow> http_method \<Rightarrow> jsstring \<Rightarrow> request_parameters option \<Rightarrow>
   request_parameters option \<Rightarrow> thrown + json" where
  "request rt fetch config env method endpoint data queryParams =
     (case request_body rt fetch config env method endpoint data queryParams of
        Inr result \<Rightarrow> Inr result
      | Inl (ErrorObject cls message) \<Rightarrow>
          if string_includes message (js ''Zaim API Error'') then Inl (ErrorObject cls message)
          else throw_error (js ''Network error occurred: '' @ message)
      | Inl NonErrorValue \<Rightarrow> throw_error (js ''Unknown network error occurred''))"

definition get ::
  "runtime \<Rightarrow> (jsstring \<Rightarrow> request_options \<Rightarrow> thrown + response) \<Rightarrow>
   oauth_config \<Rightarrow> environment \<Rightarrow> jsstring \<Rightarrow> request_parameters option \<Rightarrow> thrown + json" where
  "get rt fetch config env endpoint params =
     request rt fetch config env GET endpoint None params"

definition post ::
  "runtime \<Rightarrow> (jsstring \<Rightarrow> request_options \<Rightarrow> thrown + response) \<Rightarrow>
   oauth_config \<Rightarrow> environment \<Rightarrow> jsstring \<Rightarrow> request_parameters option \<Rightarrow> thrown + json" where
  "post rt fetch config env endpoint data =
     request rt fetch config env POST endpoint data None"

definition put ::
  "runtime \<Rightarrow> (jsstring \<Rightarrow> request_options \<Rightarrow> thrown + response) \<Rightarrow>
   oauth_config \<Rightarrow> environment \<Rightarrow> jsstring \<Rightarrow> request_parameters option \<Rightarrow> thrown + json" where
  "put rt fetch config env endpoint data =
     request rt fetch config env PUT endpoint data None"

definition delete ::
  "runtime \<Rightarrow> (jsstring \<Rightarrow> request_options \<Rightarrow> thrown + response) \<Rightarrow>
   oauth_config \<Rightarrow> environment \<Rightarrow> jsstring \<Rightarrow> thrown + json" where
  "delete rt fetch config env endpoint =
     request rt fetch config env DELETE endpoint None None"

section \<open>The credential check of \<open>TokenStorage\<close>\<close>

text \<open>
  \<open>String.prototype.trim\<close> removes white space and line terminators at both ends.
  \<open>TokenStorage.validateConfig\<close>, the check on the side of the configuration loader,
  tests every credential before and after trimming.
\<close>

definition is_white_space :: "code_unit \<Rightarrow> bool" where
  "is_white_space c \<longleftrightarrow>
     c \<in> set [0x09, 0x0A, 0x0B, 0x0C, 0x0D, 0x20, 0xA0, 0x1680, 0x2028, 0x2029, 0x202F,
               0x205F, 0x3000, 0xFEFF]
     \<or> (0x2000 \<le> c \<and> c \<le> 0x200A)"

definition trim :: "jsstring \<Rightarrow> jsstring" where
  "trim s = rev (dropWhile is_white_space (rev (dropWhile is_white_space s)))"

definition TokenStorage_validateConfig :: "oauth_config \<Rightarrow> bool" where
  "TokenStorage_validateConfig config \<longleftrightarrow>
     consumerKey config \<noteq> [] \<and> consumerSecret config \<noteq> [] \<and> accessToken config \<noteq> [] \<and>
     accessTokenSecret config \<noteq> [] \<and>
     trim (consumerKey config) \<noteq> [] \<and> trim (consumerSecret config) \<noteq> [] \<and>
     trim (accessToken config) \<noteq> [] \<and> trim (accessTokenSecret config) \<noteq> []"

section \<open>Notions used in the proofs\<close>

text \<open>
  The sort key of the collation (primary weights first, then tertiary weights), the
  Unicode scalar values, \<open>String.prototype.toWellFormed\<close>, the strings
  \<open>encodeURIComponent\<close> accepts with its result on them, and the decoder that reads an
  encoded string back.
\<close>

definition collation_key :: "jsstring \<Rightarrow> nat list \<times> nat list" where
  "collation_key s = (map primary_weight s, map tertiary_weight s)"

definition scalar_value :: "nat \<Rightarrow> bool" where
  "scalar_value cp \<longleftrightarrow> cp < 0x110000 \<and> \<not> (0xD800 \<le> cp \<and> cp \<le> 0xDFFF)"

definition toWellFormed :: "jsstring \<Rightarrow> jsstring" where
  "toWellFormed s = from_code_points (code_points s)"

definition encodable :: "jsstring \<Rightarrow> bool" where
  "encodable s \<longleftrightarrow> (case encodeURIComponent s of Inl e \<Rightarrow> False | Inr t \<Rightarrow> True)"

definition encoded :: "jsstring \<Rightarrow> jsstring" where
  "encoded s = (case encodeURIComponent s of Inl e \<Rightarrow> [] | Inr t \<Rightarrow> t)"

text \<open>
  The unreserved characters of RFC 3986, as the specification lists them: letters,
  digits, \<open>-\<close>, \<open>.\<close>, \<open>_\<close> and \<open>~\<close>.
\<close>

definition rfc3986_unreserved :: "code_unit \<Rightarrow> bool" where
  "rfc3986_unreserved c \<longleftrightarrow>
     (0x41 \<le> c \<and> c \<le> 0x5A) \<or> (0x61 \<le> c \<and> c \<le> 0x7A) \<or> (0x30 \<le> c \<and> c \<le> 0x39)
     \<or> c = 0x2D \<or> c = 0x2E \<or> c = 0x5F \<or> c = 0x7E"

text \<open>
  The percent-encoding of the specification, written from its words: the unreserved
  characters are copied, every other character is percent-escaped (the bytes of its UTF-8
  encoding). It is compared with \<open>encodeURIComponent\<close>, which the code calls.
\<close>

fun rfc3986_encode :: "jsstring \<Rightarrow> thrown + jsstring" where
  "rfc3986_encode [] = Inr []"
| "rfc3986_encode (c # cs) =
     (if rfc3986_unreserved c then map_sum id ((#) c) (rfc3986_encode cs)
      else if is_low_surrogate c then Inl uri_malformed
      else if is_high_surrogate c then
        (case cs of
           [] \<Rightarrow> Inl uri_malformed
         | d # ds \<Rightarrow>
             if is_low_surrogate d
             then map_sum id ((@) (percent_all (utf8_encode (surrogate_pair c d))))
                    (rfc3986_encode ds)
             else Inl uri_malformed)
      else map_sum id ((@) (percent_all (utf8_encode (unat c)))) (rfc3986_encode cs))"

definition uri_decode :: "jsstring \<Rightarrow> jsstring" where
  "uri_decode t = from_code_points (utf8_decode Start (percent_decode (map unat t)))"

text \<open>
  Reading a property of a JSON value that is not \<open>null\<close>, the value that
  \<open>errorData.message || errorData.error || 'Unknown error'\<close> selects from the body of a
  response, and the inputs the witnesses are evaluated at: a configuration, the values
  read from outside, a host whose digest is a fixed string and whose upper-case mapping
  beyond ASCII keeps every code point, and the header and options they lead to.
\<close>

definition field :: "json \<Rightarrow> jsstring \<Rightarrow> json option" where
  "field v name = (case v of JObject props \<Rightarrow> map_of props name | _ \<Rightarrow> None)"

definition error_value :: "response \<Rightarrow> json option" where
  "error_value r =
     (let responseData = (case json_body r of Inl e \<Rightarrow> JObject [] | Inr v \<Rightarrow> v);
          message = field responseData (js ''message'');
          error = field responseData (js ''error'')
      in if truthy message then message
         else if truthy error then error
         else Some (JString (js ''Unknown error'')))"

definition sample_config :: oauth_config where
  "sample_config = \<lparr>consumerKey = js ''ck'', consumerSecret = js ''cs'',
     accessToken = js ''at'', accessTokenSecret = js ''ats''\<rparr>"

definition sample_environment :: environment where
  "sample_environment = \<lparr>random1 = js ''0.4fzyo82mvyr'', random2 = js ''0.9q8k3x1b2c7'',
     now = 1700000000123\<rparr>"

definition sample_runtime :: runtime where
  "sample_runtime =
     \<lparr>hmac_sha1_base64 = (\<lambda>key data. js ''c2lnbmF0dXJl''), unicode_upper = (\<lambda>cp. [cp])\<rparr>"

definition sample_header_value :: jsstring where
  "sample_header_value =
     js ''OAuth oauth_consumer_key='' @ [0x22] @ js ''ck'' @ [0x22] @
     js '', oauth_nonce='' @ [0x22] @ js ''4fzyo82mvyr9q8k3x1b2c7'' @ [0x22] @
     js '', oauth_signature_method='' @ [0x22] @ js ''HMAC-SHA1'' @ [0x22] @
     js '', oauth_timestamp='' @ [0x22] @ js ''1700000000'' @ [0x22] @
     js '', oauth_token='' @ [0x22] @ js ''at'' @ [0x22] @
     js '', oauth_version='' @ [0x22] @ js ''1.0'' @ [0x22] @
     js '', oauth_signature='' @ [0x22] @ js ''c2lnbmF0dXJl'' @ [0x22]"

definition sample_options :: request_options where
  "sample_options =
     \<lparr>http_method = GET,
      headers = [(js ''Authorization'', sample_header_value),
                 (js ''User-Agent'', js ''Zaim-MCP-Client/1.0'')],
      body = None\<rparr>"

text \<open>
  For the query string: the parser's replacement of \<open>+\<close>, the code units the serializer
  can emit (ASCII, and none of \<open>&\<close>, \<open>=\<close>, \<open>?\<close>), and the pairs a query object is sent
  as (\<open>URLSearchParams.append\<close> converts names and values to scalar value strings).
\<close>

definition plus_to_space :: "nat \<Rightarrow> nat" where
  "plus_to_space b = (if b = 0x2B then 0x20 else b)"

definition form_unit :: "code_unit \<Rightarrow> bool" where
  "form_unit c \<longleftrightarrow> unat c < 0x80 \<and> c \<noteq> 0x26 \<and> c \<noteq> 0x3D \<and> c \<noteq> 0x3F"

definition sent_pairs :: "request_parameters \<Rightarrow> (jsstring \<times> jsstring) list" where
  "sent_pairs q = map (\<lambda>(key, val). (toWellFormed key, toWellFormed (String_of val))) q"

section \<open>Sorting with \<open>localeCompare\<close>\<close>

lemma compare_weights_less: "compare_weights xs ys < 0 \<longleftrightarrow> xs < ys"
  by (induction xs ys rule: compare_weights.induct) auto

lemma compare_weights_zero: "compare_weights xs ys = 0 \<longleftrightarrow> xs = ys"
  by (induction xs ys rule: compare_weights.induct) auto

lemma compare_weights_le: "compare_weights xs ys \<le> 0 \<longleftrightarrow> xs \<le> ys"
  using compare_weights_less [of xs ys] compare_weights_zero [of xs ys]
  by (auto simp: order_le_less)

lemma localeCompare_le: "localeCompare a b \<le> 0 \<longleftrightarrow> collation_key a \<le> collation_key b"
  unfolding localeCompare_def collation_key_def Let_def less_eq_prod_simp
  using compare_weights_less [of "map primary_weight a" "map primary_weight b"]
        compare_weights_zero [of "map primary_weight a" "map primary_weight b"]
        compare_weights_le [of "map tertiary_weight a" "map tertiary_weight b"]
        compare_weights_le [of "map primary_weight a" "map primary_weight b"]
  by (auto simp: order_le_less)

lemma sort_insert_insort_key:
  assumes "\<And>x y. cmp x y \<le> 0 \<longleftrightarrow> f x \<le> f y"
  shows "sort_insert cmp x ys = insort_key f x ys"
  by (induction ys) (simp_all add: assms)

lemma array_sort_sort_key:
  assumes "\<And>x y. cmp x y \<le> 0 \<longleftrightarrow> f x \<le> f y"
  shows "array_sort cmp xs = sort_key f xs"
proof -
  have "sort_insert cmp = insort_key f"
    by (intro ext) (rule sort_insert_insort_key [OF assms])
  then show ?thesis by (simp add: array_sort_def sort_key_def)
qed

lemma punctuation_rank_cases:
  "punctuation_rank c = Some r \<Longrightarrow>
     (c, r) \<in> set [(0x5F, 1), (0x2D, 2), (0x21, 3), (0x2E, 4), (0x27, 5),
             (0x28, 6), (0x29, 7), (0x2A, 8), (0x25, 9), (0x7E, 10)]"
  unfolding punctuation_rank_def by (rule map_of_SomeD)

lemma punctuation_rank_inj:
  "punctuation_rank c = Some r \<Longrightarrow> punctuation_rank d = Some r \<Longrightarrow> c = d"
  by (drule punctuation_rank_cases)+ auto

lemma punctuation_rank_bound: "punctuation_rank c = Some r \<Longrightarrow> 1 \<le> r \<and> r \<le> 10"
  by (drule punctuation_rank_cases) auto

lemma weight_inj:
  assumes "primary_weight c = primary_weight d" "tertiary_weight c = tertiary_weight d"
  shows "c = d"
proof -
  define g :: "nat \<Rightarrow> nat \<Rightarrow> code_unit" where
    "g p t = (if 21 \<le> p \<and> p \<le> 46 then (if t = 1 then of_nat (p + 44) else of_nat (p + 76))
              else if 11 \<le> p \<and> p \<le> 20 then of_nat (p + 37)
              else if p = 1 then 0x5F else if p = 2 then 0x2D else if p = 3 then 0x21
              else if p = 4 then 0x2E else if p = 5 then 0x27 else if p = 6 then 0x28
              else if p = 7 then 0x29 else if p = 8 then 0x2A else if p = 9 then 0x25
              else if p = 10 then 0x7E else of_nat (p - 100))" for p t
  have g_lower: "g (21 + k) 0 = of_nat (97 + k)" if "k \<le> 25" for k
    using that by (simp add: g_def add.commute)
  have g_upper: "g (21 + k) 1 = of_nat (65 + k)" if "k \<le> 25" for k
    using that by (simp add: g_def add.commute)
  have g_digit: "g (11 + k) t = of_nat (48 + k)" if "k \<le> 9" for k t
    using that by (simp add: g_def add.commute)
  have g_other: "g (100 + n) t = of_nat n" for n t
    by (simp add: g_def)
  have inv: "g (primary_weight e) (tertiary_weight e) = e" for e :: code_unit
  proof -
    consider (lower) "0x61 \<le> e \<and> e \<le> 0x7A"
      | (upper) "0x41 \<le> e \<and> e \<le> 0x5A"
      | (digit) "0x30 \<le> e \<and> e \<le> 0x39"
      | (punct) r where "\<not> (0x61 \<le> e \<and> e \<le> 0x7A)" "\<not> (0x41 \<le> e \<and> e \<le> 0x5A)"
          "\<not> (0x30 \<le> e \<and> e \<le> 0x39)" "punctuation_rank e = Some r"
      | (other) "\<not> (0x61 \<le> e \<and> e \<le> 0x7A)" "\<not> (0x41 \<le> e \<and> e \<le> 0x5A)"
          "\<not> (0x30 \<le> e \<and> e \<le> 0x39)" "punctuation_rank e = None"
      by (cases "punctuation_rank e") auto
    then show ?thesis
    proof cases
      case lower
      then have n: "97 \<le> unat e" "unat e \<le> 122" by (simp_all add: word_le_nat_alt)
      have p: "primary_weight e = 21 + (unat e - 97)" and t: "tertiary_weight e = 0"
        using lower by (auto simp: primary_weight_def tertiary_weight_def word_le_nat_alt)
      have "g (primary_weight e) (tertiary_weight e) = of_nat (97 + (unat e - 97))"
        unfolding p t using n by (intro g_lower) simp
      also have "97 + (unat e - 97) = unat e" using n by simp
      finally show ?thesis by simp
    next
      case upper
      then have n: "65 \<le> unat e" "unat e \<le> 90" by (simp_all add: word_le_nat_alt)
      have p: "primary_weight e = 21 + (unat e - 65)" and t: "tertiary_weight e = 1"
        using upper by (auto simp: primary_weight_def tertiary_weight_def word_le_nat_alt)
      have "g (primary_weight e) (tertiary_weight e) = of_nat (65 + (unat e - 65))"
        unfolding p t using n by (intro g_upper) simp
      also have "65 + (unat e - 65) = unat e" using n by simp
      finally show ?thesis by simp
    next
      case digit
      then have n: "48 \<le> unat e" "unat e \<le> 57" by (simp_all add: word_le_nat_alt)
      have p: "primary_weight e = 11 + (unat e - 48)"
        using digit by (auto simp: primary_weight_def word_le_nat_alt)
      have "g (primary_weight e) (tertiary_weight e) = of_nat (48 + (unat e - 48))"
        unfolding p using n by (intro g_digit) simp
      also have "48 + (unat e - 48) = unat e" using n by simp
      finally show ?thesis by simp
    next
      case (punct r)
      then have p: "primary_weight e = r" by (auto simp: primary_weight_def)
      from punctuation_rank_cases [OF punct(4)] show ?thesis
        unfolding p g_def by auto
    next
      case other
      then have p: "primary_weight e = 100 + unat e" by (auto simp: primary_weight_def)
      show ?thesis unfolding p g_other by simp
    qed
  qed
  from assms have "g (primary_weight c) (tertiary_weight c) = g (primary_weight d) (tertiary_weight d)"
    by simp
  then show ?thesis by (simp only: inv)
qed

lemma collation_key_inj: "collation_key a = collation_key b \<Longrightarrow> a = b"
proof (induction a arbitrary: b)
  case Nil
  then show ?case by (simp add: collation_key_def)
next
  case (Cons c a)
  then obtain d b' where b: "b = d # b'"
    by (cases b) (auto simp: collation_key_def)
  with Cons.prems have "c = d" "collation_key a = collation_key b'"
    by (auto simp: collation_key_def intro: weight_inj)
  with Cons.IH b show ?case by simp
qed

section \<open>Decoding UTF-8\<close>

lemma mod_lead2: "a < 32 \<Longrightarrow> (0xC0 + a) mod 0x20 = (a::nat)"
  using mod_mult_self1 [of a 6 32] by (simp add: add.commute)

lemma mod_lead3: "a < 16 \<Longrightarrow> (0xE0 + a) mod 0x10 = (a::nat)"
  using mod_mult_self1 [of a 14 16] by (simp add: add.commute)

lemma mod_lead4: "a < 8 \<Longrightarrow> (0xF0 + a) mod 0x08 = (a::nat)"
  using mod_mult_self1 [of a 30 8] by (simp add: add.commute)

lemma mod_continuation: "b < 64 \<Longrightarrow> (0x80 + b) mod 0x40 = (b::nat)"
  using mod_mult_self1 [of b 2 64] by (simp add: add.commute)

lemma utf8_decode_ascii:
  "b \<le> 0x7F \<Longrightarrow> utf8_decode Start (b # r) = b # utf8_decode Start r"
  by (simp add: utf8_step_def utf8_lead_def)

lemma utf8_roundtrip_1:
  assumes "cp < 0x80"
  shows "utf8_decode Start (utf8_encode cp @ r) = cp # utf8_decode Start r"
  using assms by (simp add: utf8_encode_def utf8_step_def utf8_lead_def)

lemma utf8_roundtrip_2:
  assumes "0x80 \<le> cp" "cp < 0x800"
  shows "utf8_decode Start (utf8_encode cp @ r) = cp # utf8_decode Start r"
proof -
  define a b where "a = cp div 0x40" and "b = cp mod 0x40"
  have cp: "a * 0x40 + b = cp" and b: "b < 64"
    unfolding a_def b_def by simp_all
  have bounds: "2 \<le> a" "a < 32" "b < 64"
    using assms cp b by linarith+
  have enc: "utf8_encode cp = [0xC0 + a, 0x80 + b]"
    using assms by (simp add: utf8_encode_def a_def b_def)
  have m: "(0xC0 + a) mod 0x20 = a" "(0x80 + b) mod 0x40 = b"
    using bounds by (simp_all add: mod_lead2 mod_continuation)
  have l: "utf8_step Start (0xC0 + a) = ([], Need (Suc 0) a 0x80 0xBF)"
    using bounds m by (simp add: utf8_step_def utf8_lead_def)
  have s: "utf8_step (Need (Suc 0) a 0x80 0xBF) (0x80 + b) = ([cp], Start)"
    using bounds m cp by (simp add: utf8_step_def)
  show ?thesis by (simp add: enc l s)
qed

lemma utf8_roundtrip_3:
  assumes "0x800 \<le> cp" "cp < 0x10000" "\<not> (0xD800 \<le> cp \<and> cp \<le> 0xDFFF)"
  shows "utf8_decode Start (utf8_encode cp @ r) = cp # utf8_decode Start r"
proof -
  define a b c where "a = cp div 0x1000" and "b = (cp div 0x40) mod 0x40" and "c = cp mod 0x40"
  define q where "q = cp div 0x40"
  have a: "a = q div 0x40"
    unfolding a_def q_def by (simp add: div_mult2_eq [symmetric])
  have q: "q * 0x40 + c = cp" "a * 0x40 + b = q"
    unfolding a b_def c_def q_def by simp_all
  have "c < 64"
    unfolding c_def by simp
  have qb: "32 \<le> q" "q < 1024" "\<not> (864 \<le> q \<and> q \<le> 895)"
    using assms q(1) \<open>c < 64\<close> by linarith+
  have cp: "(a * 0x40 + b) * 0x40 + c = cp"
    using q by simp
  have small: "b < 64" "c < 64"
    unfolding b_def c_def by simp_all
  have bounds: "a < 16" "b < 64" "c < 64"
    using qb q(2) small by linarith+
  have lo: "a = 0 \<longrightarrow> 32 \<le> b" and hi: "a = 13 \<longrightarrow> b < 32"
    using qb q(2) small by auto
  have enc: "utf8_encode cp = [0xE0 + a, 0x80 + b, 0x80 + c]"
    using assms by (simp add: utf8_encode_def a_def b_def c_def)
  have m: "(0xE0 + a) mod 0x10 = a" "(0x80 + b) mod 0x40 = b" "(0x80 + c) mod 0x40 = c"
    using bounds by (simp_all add: mod_lead3 mod_continuation)
  have l: "utf8_step Start (0xE0 + a) =
      ([], Need 2 a (if a = 0 then 0xA0 else 0x80) (if a = 13 then 0x9F else 0xBF))"
    using bounds m by (simp add: utf8_step_def utf8_lead_def)
  have s1: "utf8_step (Need 2 a (if a = 0 then 0xA0 else 0x80) (if a = 13 then 0x9F else 0xBF))
      (0x80 + b) = ([], Need (Suc 0) q 0x80 0xBF)"
    using bounds m lo hi q(2) by (auto simp: utf8_step_def)
  have s2: "utf8_step (Need (Suc 0) q 0x80 0xBF) (0x80 + c) = ([cp], Start)"
    using bounds m q(1) by (simp add: utf8_step_def)
  show ?thesis by (simp add: enc l s1 s2)
qed

lemma utf8_roundtrip_4:
  assumes "0x10000 \<le> cp" "cp < 0x110000"
  shows "utf8_decode Start (utf8_encode cp @ r) = cp # utf8_decode Start r"
proof -
  define a b c d where "a = cp div 0x40000" and "b = (cp div 0x1000) mod 0x40"
    and "c = (cp div 0x40) mod 0x40" and "d = cp mod 0x40"
  define q1 q2 where "q1 = cp div 0x40" and "q2 = q1 div 0x40"
  have q2: "q2 = cp div 0x1000"
    unfolding q1_def q2_def by (simp add: div_mult2_eq [symmetric])
  have a: "a = q2 div 0x40"
    unfolding a_def q2 by (simp add: div_mult2_eq [symmetric])
  have q: "q1 * 0x40 + d = cp" "q2 * 0x40 + c = q1" "a * 0x40 + b = q2"
    unfolding a b_def c_def d_def q2 [symmetric] unfolding q1_def q2_def by simp_all
  have small: "b < 64" "c < 64" "d < 64"
    unfolding b_def c_def d_def by simp_all
  have q1b: "1024 \<le> q1" "q1 < 17408"
    using assms q(1) small by linarith+
  have q2b: "16 \<le> q2" "q2 < 272"
    using q1b q(2) small by linarith+
  have cp: "((a * 0x40 + b) * 0x40 + c) * 0x40 + d = cp"
    using q by simp
  have bounds: "a \<le> 4" "b < 64" "c < 64" "d < 64"
    using q2b q(3) small by linarith+
  have lo: "a = 0 \<longrightarrow> 16 \<le> b" and hi: "a = 4 \<longrightarrow> b < 16"
    using q2b q(3) small by auto
  have enc: "utf8_encode cp = [0xF0 + a, 0x80 + b, 0x80 + c, 0x80 + d]"
    using assms by (simp add: utf8_encode_def a_def b_def c_def d_def)
  have m: "(0xF0 + a) mod 0x08 = a" "(0x80 + b) mod 0x40 = b" "(0x80 + c) mod 0x40 = c"
      "(0x80 + d) mod 0x40 = d"
    using bounds by (simp_all add: mod_lead4 mod_continuation)
  have l: "utf8_step Start (0xF0 + a) =
      ([], Need 3 a (if a = 0 then 0x90 else 0x80) (if a = 4 then 0x8F else 0xBF))"
    using bounds m by (simp add: utf8_step_def utf8_lead_def)
  have s1: "utf8_step (Need 3 a (if a = 0 then 0x90 else 0x80) (if a = 4 then 0x8F else 0xBF))
      (0x80 + b) = ([], Need 2 q2 0x80 0xBF)"
    using bounds m lo hi q(3) by (auto simp: utf8_step_def)
  have s2: "utf8_step (Need 2 q2 0x80 0xBF) (0x80 + c) = ([], Need (Suc 0) q1 0x80 0xBF)"
    using bounds m q(2) by (simp add: utf8_step_def)
  have s3: "utf8_step (Need (Suc 0) q1 0x80 0xBF) (0x80 + d) = ([cp], Start)"
    using bounds m q(1) by (simp add: utf8_step_def)
  show ?thesis by (simp add: enc l s1 s2 s3)
qed

lemma utf8_roundtrip:
  assumes "scalar_value cp"
  shows "utf8_decode Start (utf8_encode cp @ r) = cp # utf8_decode Start r"
proof -
  consider "cp < 0x80" | "0x80 \<le> cp" "cp < 0x800" | "0x800 \<le> cp" "cp < 0x10000"
    | "0x10000 \<le> cp"
    by linarith
  then show ?thesis
    using assms utf8_roundtrip_1 utf8_roundtrip_2 utf8_roundtrip_3 utf8_roundtrip_4
    unfolding scalar_value_def by cases blast+
qed

lemma utf8_roundtrip_list:
  assumes "\<forall>cp \<in> set cps. scalar_value cp"
  shows "utf8_decode Start (concat (map utf8_encode cps) @ r) = cps @ utf8_decode Start r"
  using assms by (induction cps) (simp_all add: utf8_roundtrip)

section \<open>Percent-escapes and surrogate pairs\<close>

lemma unat_hex_digit:
  "n < 16 \<Longrightarrow> unat (hex_digit n) = (if n < 10 then 0x30 + n else 0x37 + n)"
proof -
  assume "n < 16"
  have *: "unat (of_nat k :: code_unit) = k" if "k < 65536" for k
    using that by (simp add: unat_of_nat)
  have "unat (of_nat (0x30 + n) :: code_unit) = 0x30 + n"
       "unat (of_nat (0x37 + n) :: code_unit) = 0x37 + n"
    using \<open>n < 16\<close> by (intro *; simp)+
  then show ?thesis
    unfolding hex_digit_def by (simp del: of_nat_add of_nat_numeral)
qed

lemma hex_digit_roundtrip:
  assumes "n < 16"
  shows "is_hex_byte (unat (hex_digit n))" "hex_value (unat (hex_digit n)) = n"
  using assms by (simp_all add: unat_hex_digit is_hex_byte_def hex_value_def)

lemma percent_decode_percent:
  assumes "b < 256"
  shows "percent_decode (map unat (percent b) @ r) = b # percent_decode r"
proof -
  have "b div 16 < 16" "b mod 16 < 16"
    using assms by (simp_all add: less_mult_imp_div_less)
  then show ?thesis
    by (simp add: percent_def hex_digit_roundtrip)
qed

lemma percent_decode_percent_all:
  assumes "\<forall>b \<in> set bs. b < 256"
  shows "percent_decode (map unat (percent_all bs) @ r) = bs @ percent_decode r"
  using assms
proof (induction bs)
  case Nil
  then show ?case by (simp add: percent_all_def)
next
  case (Cons b bs)
  then have "percent_decode (map unat (percent b) @ (map unat (percent_all bs) @ r))
      = b # percent_decode (map unat (percent_all bs) @ r)"
    by (intro percent_decode_percent) simp
  with Cons show ?case by (simp add: percent_all_def)
qed

lemma percent_decode_plain:
  "b \<noteq> 0x25 \<Longrightarrow> percent_decode (b # r) = b # percent_decode r"
  by simp

lemma utf8_encode_bytes_all:
  assumes "cp < 0x110000"
  shows "\<forall>b \<in> set (utf8_encode cp). b < 256"
proof -
  have "cp div 0x40 < 0x4400" "cp div 0x1000 < 0x110" "cp div 0x40000 < 5"
    using assms by (simp_all add: less_mult_imp_div_less)
  moreover have "cp < 0x800 \<Longrightarrow> cp div 0x40 < 0x20" "cp < 0x10000 \<Longrightarrow> cp div 0x1000 < 0x10"
    by (simp_all add: less_mult_imp_div_less)
  moreover have "(cp div 0x40) mod 0x40 < 0x40" "cp mod 0x40 < 0x40" "(cp div 0x1000) mod 0x40 < 0x40"
    by simp_all
  ultimately show ?thesis
    unfolding utf8_encode_def by (auto simp del: mod_less_divisor)
qed

lemma surrogate_pair_decompose:
  assumes "is_high_surrogate c" "is_low_surrogate d"
  obtains h l where "unat c = 0xD800 + h" "unat d = 0xDC00 + l" "h < 0x400" "l < 0x400"
    "surrogate_pair c d = 0x10000 + (h * 0x400 + l)"
proof -
  define h l where "h = unat c - 0xD800" and "l = unat d - 0xDC00"
  have "unat c = 0xD800 + h" "unat d = 0xDC00 + l" "h < 0x400" "l < 0x400"
    using assms unfolding h_def l_def is_high_surrogate_def is_low_surrogate_def word_le_nat_alt
    by auto
  moreover have "surrogate_pair c d = 0x10000 + (h * 0x400 + l)"
    by (simp add: surrogate_pair_def h_def l_def)
  ultimately show thesis by (rule that)
qed

lemma surrogate_pair_bounds:
  assumes "is_high_surrogate c" "is_low_surrogate d"
  shows "0x10000 \<le> surrogate_pair c d" "surrogate_pair c d < 0x110000"
proof -
  from surrogate_pair_decompose [OF assms] obtain h l where
    "h < 0x400" "l < 0x400" "surrogate_pair c d = 0x10000 + (h * 0x400 + l)"
    by blast
  then show "0x10000 \<le> surrogate_pair c d" "surrogate_pair c d < 0x110000"
    by simp_all
qed

lemma surrogate_pair_scalar:
  "is_high_surrogate c \<Longrightarrow> is_low_surrogate d \<Longrightarrow> scalar_value (surrogate_pair c d)"
  using surrogate_pair_bounds [of c d] by (simp add: scalar_value_def)

lemma unit_scalar:
  assumes "\<not> is_high_surrogate c" "\<not> is_low_surrogate c"
  shows "scalar_value (unat c)"
proof -
  have "unat c < 2 ^ 16"
    using unsigned_less [of c] by simp
  then show ?thesis
    using assms
    unfolding is_high_surrogate_def is_low_surrogate_def word_le_nat_alt scalar_value_def
    by auto
qed

lemma utf16_units_unit: "utf16_units (unat (c :: code_unit)) = [c]"
proof -
  have "unat c < 2 ^ 16"
    using unsigned_less [of c] by simp
  then show ?thesis by (simp add: utf16_units_def)
qed

lemma utf16_units_pair:
  assumes "is_high_surrogate c" "is_low_surrogate d"
  shows "utf16_units (surrogate_pair c d) = [c, d]"
proof -
  from surrogate_pair_decompose [OF assms] obtain h l where
    hl: "unat c = 0xD800 + h" "unat d = 0xDC00 + l" "l < 0x400"
    and sp: "surrogate_pair c d = 0x10000 + (h * 0x400 + l)"
    by blast
  have "(h * 0x400 + l) div 0x400 = h" "(h * 0x400 + l) mod 0x400 = l"
    using hl(3) by simp_all
  then have "utf16_units (surrogate_pair c d) = [of_nat (unat c), of_nat (unat d)]"
    unfolding sp utf16_units_def hl(1,2) by simp
  then show ?thesis by simp
qed

lemma uri_unescaped_ascii:
  assumes "uri_unescaped c"
  shows "unat c \<le> 0x7F" "unat c \<noteq> 0x25"
  using assms unfolding uri_unescaped_def word_le_nat_alt by auto

section \<open>\<open>encodeURIComponent\<close> is injective\<close>

lemma uri_decode_unescaped:
  assumes "uri_unescaped c"
  shows "uri_decode (c # t) = c # uri_decode t"
  using uri_unescaped_ascii [OF assms]
  by (simp add: uri_decode_def utf8_decode_ascii from_code_points_def utf16_units_unit
      del: utf8_decode.simps)

lemma uri_decode_escaped:
  assumes "scalar_value cp"
  shows "uri_decode (percent_all (utf8_encode cp) @ t) = utf16_units cp @ uri_decode t"
proof -
  have "cp < 0x110000"
    using assms by (simp add: scalar_value_def)
  then have "percent_decode (map unat (percent_all (utf8_encode cp)) @ map unat t)
      = utf8_encode cp @ percent_decode (map unat t)"
    by (intro percent_decode_percent_all utf8_encode_bytes_all)
  then show ?thesis
    by (simp add: uri_decode_def utf8_roundtrip [OF assms] from_code_points_def)
qed

lemma encodeURIComponent_decode:
  "encodeURIComponent s = Inr t \<Longrightarrow> uri_decode t = s"
proof (induction s arbitrary: t rule: encodeURIComponent.induct)
  case 1
  then show ?case
    by (simp add: uri_decode_def from_code_points_def)
next
  case (2 c cs)
  show ?case
  proof (cases "uri_unescaped c")
    case True
    with "2.prems" obtain t' where t': "encodeURIComponent cs = Inr t'" "t = c # t'"
      by (cases "encodeURIComponent cs") auto
    with "2.IH"(1) True show ?thesis
      by (simp add: uri_decode_unescaped)
  next
    case unescaped: False
    show ?thesis
    proof (cases "is_low_surrogate c")
      case True
      with unescaped "2.prems" show ?thesis by simp
    next
      case low: False
      show ?thesis
      proof (cases "is_high_surrogate c")
        case True
        with unescaped low "2.prems" obtain d ds where cs: "cs = d # ds"
          by (cases cs) auto
        with unescaped low True "2.prems" have d: "is_low_surrogate d"
          by (auto split: if_splits)
        with unescaped low True cs "2.prems" obtain t' where
          t': "encodeURIComponent ds = Inr t'"
            "t = percent_all (utf8_encode (surrogate_pair c d)) @ t'"
          by (cases "encodeURIComponent ds") auto
        from "2.IH"(2) [OF unescaped low True cs d t'(1)] have "uri_decode t' = ds" .
        then show ?thesis
          unfolding t'(2) cs
          by (simp add: uri_decode_escaped surrogate_pair_scalar utf16_units_pair True d)
      next
        case False
        with unescaped low "2.prems" obtain t' where
          t': "encodeURIComponent cs = Inr t'" "t = percent_all (utf8_encode (unat c)) @ t'"
          by (cases "encodeURIComponent cs") auto
        from "2.IH"(3) [OF unescaped low False t'(1)] have "uri_decode t' = cs" .
        then show ?thesis
          unfolding t'(2)
          by (simp add: uri_decode_escaped unit_scalar utf16_units_unit False low)
      qed
    qed
  qed
qed

lemma encodeURIComponent_inj:
  "encodeURIComponent s = Inr t \<Longrightarrow> encodeURIComponent s' = Inr t \<Longrightarrow> s = s'"
  using encodeURIComponent_decode by metis

lemma encodeURIComponent_error:
  "encodeURIComponent s = Inl e \<Longrightarrow> e = uri_malformed"
proof (induction s rule: encodeURIComponent.induct)
  case 1
  then show ?case by simp
next
  case (2 c cs)
  then show ?case
    by (auto split: if_splits list.splits sum.splits simp: map_sum_def)
qed

lemma encodable_cases:
  "encodeURIComponent s = (if encodable s then Inr (encoded s) else Inl uri_malformed)"
  using encodeURIComponent_error [of s]
  by (cases "encodeURIComponent s") (simp_all add: encodable_def encoded_def)

lemma encoded_inj:
  assumes "encodable s" "encodable s'" "encoded s = encoded s'"
  shows "s = s'"
  using assms encodable_cases [of s] encodable_cases [of s'] encodeURIComponent_inj
  by metis

lemma encode_entries_cases:
  "encode_entries ps =
     (if \<forall>p \<in> set ps. encodable (fst p) \<and> encodable (snd p)
      then Inr (map (\<lambda>p. (encoded (fst p), encoded (snd p))) ps)
      else Inl uri_malformed)"
proof (induction ps)
  case Nil
  then show ?case by simp
next
  case (Cons p ps)
  obtain k v where p: "p = (k, v)" by (cases p)
  show ?case
    unfolding p encode_entries.simps Cons.IH
    by (simp add: encodable_cases [of k] encodable_cases [of v] then_do_def)
qed

section \<open>The normalized parameter string\<close>

lemma normalizeParameters_sort_key:
  "normalizeParameters ps =
     map_sum id
       (\<lambda>encoded.
          join (js ''&'')
            (map (\<lambda>(key, val). key @ js ''='' @ val)
               (sort_key (\<lambda>p. collation_key (fst p)) encoded)))
       (encode_entries ps)"
  unfolding normalizeParameters_def
  by (simp add: array_sort_sort_key [where f = "\<lambda>p. collation_key (fst p)"] localeCompare_le)

lemma sorted_entries_unique:
  assumes ps: "distinct (map fst ps)" and qs: "distinct (map fst qs)" and eq: "set ps = set qs"
    and enc: "\<forall>p \<in> set ps. encodable (fst p)"
  shows "sort_key (\<lambda>p. collation_key (fst p)) (map (\<lambda>p. (encoded (fst p), encoded (snd p))) ps)
       = sort_key (\<lambda>p. collation_key (fst p)) (map (\<lambda>p. (encoded (fst p), encoded (snd p))) qs)"
proof -
  let ?E = "\<lambda>p :: jsstring \<times> jsstring. (encoded (fst p), encoded (snd p))"
  let ?f = "\<lambda>p :: jsstring \<times> jsstring. collation_key (fst p)"
  have "distinct ps" "distinct qs"
    using ps qs by (simp_all add: distinct_map)
  with eq have "mset ps = mset qs"
    by (simp add: set_eq_iff_mset_eq_distinct)
  then have m: "mset (map ?E ps) = mset (sort_key ?f (map ?E qs))"
    by simp
  have fst_inj: "inj_on fst (set ps)"
    using ps by (simp add: distinct_map)
  have "inj_on ?f (set (map ?E ps))"
  proof (rule inj_onI)
    fix x y
    assume x: "x \<in> set (map ?E ps)" and y: "y \<in> set (map ?E ps)" and f: "?f x = ?f y"
    from x obtain p where p: "p \<in> set ps" "x = ?E p" by auto
    from y obtain q where q: "q \<in> set ps" "y = ?E q" by auto
    from f p q have "encoded (fst p) = encoded (fst q)"
      by (auto dest: collation_key_inj)
    with enc p q have "fst p = fst q"
      by (auto intro: encoded_inj)
    with fst_inj p q have "p = q"
      by (auto dest: inj_onD)
    with p q show "x = y" by simp
  qed
  with m show ?thesis
    by (intro sort_key_inj_key_eq sorted_sort_key)
qed

lemmas signer_eval =
  normalizeParameters_def constructBaseString_def constructSigningKey_def js_def then_do_def
  array_sort_def localeCompare_def uri_unescaped_def primary_weight_def tertiary_weight_def
  punctuation_rank_def toUpperCase_def upper_code_point_def from_code_points_def utf16_units_def
  is_low_surrogate_def is_high_surrogate_def percent_all_def percent_def utf8_encode_def
  hex_digit_def

text \<open>
  Claim C1. Two parameter objects with the same properties, whatever the order in which
  the properties were inserted, normalize to the same result (the same string, or the
  same \<open>URIError\<close> when a name or value holds an unpaired surrogate).
\<close>

theorem normalizeParameters_insertion_order:
  assumes "well_formed_object ps" "well_formed_object qs" "set ps = set qs"
  shows "normalizeParameters ps = normalizeParameters qs"
proof (cases "\<forall>p \<in> set ps. encodable (fst p) \<and> encodable (snd p)")
  case True
  let ?E = "\<lambda>p :: jsstring \<times> jsstring. (encoded (fst p), encoded (snd p))"
  from True assms(3) have q: "\<forall>p \<in> set qs. encodable (fst p) \<and> encodable (snd p)"
    by simp
  have e: "encode_entries ps = Inr (map ?E ps)" "encode_entries qs = Inr (map ?E qs)"
    using True q by (simp_all add: encode_entries_cases)
  from True have "\<forall>p \<in> set ps. encodable (fst p)"
    by simp
  with assms have "sort_key (\<lambda>p. collation_key (fst p)) (map ?E ps)
      = sort_key (\<lambda>p. collation_key (fst p)) (map ?E qs)"
    unfolding well_formed_object_def by (rule sorted_entries_unique)
  then show ?thesis
    unfolding normalizeParameters_sort_key e map_sum.simps by (rule arg_cong)
next
  case False
  with assms(3) have "\<not> (\<forall>p \<in> set qs. encodable (fst p) \<and> encodable (snd p))"
    by simp
  with False have "encode_entries ps = Inl uri_malformed" "encode_entries qs = Inl uri_malformed"
    by (simp_all add: encode_entries_cases)
  then show ?thesis
    unfolding normalizeParameters_sort_key by simp
qed

theorem normalizeParameters_insertion_order_witness:
  "well_formed_object [(js ''b'', js ''2''), (js ''a'', js ''1'')] \<and>
   well_formed_object [(js ''a'', js ''1''), (js ''b'', js ''2'')] \<and>
   set [(js ''b'', js ''2''), (js ''a'', js ''1'')] = set [(js ''a'', js ''1''), (js ''b'', js ''2'')] \<and>
   normalizeParameters [(js ''b'', js ''2''), (js ''a'', js ''1'')] =
     normalizeParameters [(js ''a'', js ''1''), (js ''b'', js ''2'')] \<and>
   normalizeParameters [(js ''a'', js ''1''), (js ''b'', js ''2'')] = Inr (js ''a=1&b=2'')"
proof -
  have w: "well_formed_object [(js ''b'', js ''2''), (js ''a'', js ''1'')]"
      "well_formed_object [(js ''a'', js ''1''), (js ''b'', js ''2'')]"
    by (simp_all add: well_formed_object_def js_def)
  have s: "set [(js ''b'', js ''2''), (js ''a'', js ''1'')] = set [(js ''a'', js ''1''), (js ''b'', js ''2'')]"
    by auto
  have v: "normalizeParameters [(js ''a'', js ''1''), (js ''b'', js ''2'')] = Inr (js ''a=1&b=2'')"
    by (simp add: signer_eval)
  from normalizeParameters_insertion_order [OF w s] w s v show ?thesis
    by blast
qed

section \<open>What \<open>encodeURIComponent\<close> emits and accepts\<close>

lemma hex_digit_unescaped: "n < 16 \<Longrightarrow> uri_unescaped (hex_digit n)"
proof -
  assume n: "n < 16"
  have "unat (hex_digit n) = (if n < 10 then 0x30 + n else 0x37 + n)"
    using n by (rule unat_hex_digit)
  then show ?thesis
    using n unfolding uri_unescaped_def word_le_nat_alt by auto
qed

lemma percent_all_alphabet:
  assumes "\<forall>b \<in> set bs. b < 256" "c \<in> set (percent_all bs)"
  shows "uri_unescaped c \<or> c = 0x25"
proof -
  from assms(2) obtain b where b: "b \<in> set bs" "c \<in> set (percent b)"
    by (auto simp: percent_all_def)
  with assms(1) have "b div 16 < 16" "b mod 16 < 16"
    by (simp_all add: less_mult_imp_div_less)
  with b(2) show ?thesis
    by (auto simp: percent_def hex_digit_unescaped)
qed

lemma encodeURIComponent_alphabet:
  "encodeURIComponent s = Inr t \<Longrightarrow> c \<in> set t \<Longrightarrow> uri_unescaped c \<or> c = 0x25"
proof (induction s arbitrary: t rule: encodeURIComponent.induct)
  case 1
  then show ?case by simp
next
  case (2 d ds)
  have pair: "\<forall>b \<in> set (utf8_encode (surrogate_pair d e)). b < 256"
    if "is_high_surrogate d" "is_low_surrogate e" for e
    using surrogate_pair_bounds [OF that] by (intro utf8_encode_bytes_all)
  have "unat d < 2 ^ 16"
    using unsigned_less [of d] by simp
  then have unit: "\<forall>b \<in> set (utf8_encode (unat d)). b < 256"
    by (intro utf8_encode_bytes_all) simp
  from "2.prems" "2.IH" show ?case
    by (auto split: if_splits list.splits sum.splits simp: map_sum_def
        dest: percent_all_alphabet [OF pair] percent_all_alphabet [OF unit])
qed

lemma surrogate_free_encodable:
  assumes "\<forall>c \<in> set s. \<not> is_high_surrogate c \<and> \<not> is_low_surrogate c"
  shows "encodable s"
  using assms
proof (induction s)
  case Nil
  then show ?case by (simp add: encodable_def)
next
  case (Cons c s)
  then have "encodable s" by simp
  then obtain t where "encodeURIComponent s = Inr t"
    by (cases "encodeURIComponent s") (simp_all add: encodable_def)
  with Cons.prems show ?case
    by (simp add: encodable_def)
qed

lemma encodable_Nil: "encodable []" "encoded [] = []"
  by (simp_all add: encodable_def encoded_def)

section \<open>The signing key and the base string\<close>

lemma constructSigningKey_cases:
  "constructSigningKey secret token =
     (if encodable secret \<and> (\<forall>t. token = Some t \<longrightarrow> encodable t)
      then Inr (encoded secret @ js ''&'' @
                (case token of None \<Rightarrow> [] | Some t \<Rightarrow> encoded t))
      else Inl uri_malformed)"
proof (cases token)
  case None
  then show ?thesis
    by (simp add: constructSigningKey_def then_do_def encodable_cases [of secret])
next
  case (Some t)
  then show ?thesis
    by (cases "t = []")
      (simp_all add: constructSigningKey_def then_do_def encodable_cases [of secret]
        encodable_cases [of t] encodable_Nil)
qed

lemma constructBaseString_cases:
  "constructBaseString rt method url normalizedParams =
     (if encodable url \<and> encodable normalizedParams
      then Inr (toUpperCase rt method @ js ''&'' @ encoded url @ js ''&'' @ encoded normalizedParams)
      else Inl uri_malformed)"
  by (simp add: constructBaseString_def then_do_def encodable_cases [of url]
      encodable_cases [of normalizedParams])

lemma string_code_points_ascii:
  "\<forall>c \<in> set s. unat c < 0x80 \<Longrightarrow> string_code_points s = map unat s"
proof (induction s)
  case Nil
  then show ?case by simp
next
  case (Cons c s)
  then have "\<not> is_high_surrogate c"
    by (simp add: is_high_surrogate_def word_le_nat_alt)
  with Cons show ?case by simp
qed

lemma toUpperCase_ascii:
  assumes "\<forall>c \<in> set s. unat c < 0x80"
  shows "toUpperCase rt s = map (\<lambda>c. if 0x61 \<le> c \<and> c \<le> 0x7A then c - 0x20 else c) s"
proof -
  have u: "utf16_units (if 0x61 \<le> unat c \<and> unat c \<le> 0x7A then unat c - 0x20 else unat c) =
      [if 0x61 \<le> c \<and> c \<le> 0x7A then c - 0x20 else c]" for c :: code_unit
  proof (cases "0x61 \<le> c \<and> c \<le> 0x7A")
    case True
    then have n: "0x61 \<le> unat c" "unat c \<le> 0x7A"
      by (simp_all add: word_le_nat_alt)
    then have "unat (c - 0x20) = unat c - 0x20"
      by (simp add: unat_sub word_le_nat_alt)
    then have "utf16_units (unat c - 0x20) = [c - 0x20]"
      using utf16_units_unit [of "c - 0x20"] by simp
    with True n show ?thesis by simp
  next
    case False
    then have "\<not> (0x61 \<le> unat c \<and> unat c \<le> 0x7A)"
      by (simp add: word_le_nat_alt)
    with False show ?thesis
      by (simp only: if_not_P if_False utf16_units_unit)
  qed
  from assms show ?thesis
    unfolding toUpperCase_def string_code_points_ascii [OF assms] from_code_points_def
    by (induction s) (simp_all add: upper_code_point_def u)
qed

section \<open>Where the normalization leaves RFC 5849\<close>

lemma uri_unescaped_iff:
  "uri_unescaped c \<longleftrightarrow>
     rfc3986_unreserved c \<or> c = 0x21 \<or> c = 0x2A \<or> c = 0x27 \<or> c = 0x28 \<or> c = 0x29"
  by (auto simp: uri_unescaped_def rfc3986_unreserved_def)

text \<open>
  Claim C2: every character of a name or value other than letters, digits and
  \<open>- . _ ~\<close> is percent-escaped. On the code this fails for \<open>! * ' ( )\<close>, which
  \<open>encodeURIComponent\<close> copies: \<open>!\<close> is not an unreserved character and the value
  \<open>!\<close> reaches the output as it is. The examples of the claim hold: \<open>&\<close> and \<open>=\<close>
  are escaped, and a space becomes \<open>%20\<close>.
\<close>

theorem normalizeParameters_keeps_exclamation_mark:
  "\<not> rfc3986_unreserved 0x21 \<and>
   normalizeParameters [(js ''a'', [0x21])] = Inr (js ''a='' @ [0x21]) \<and>
   normalizeParameters [(js ''special_chars'', js ''test&param=value'')] =
     Inr (js ''special_chars=test%26param%3Dvalue'') \<and>
   normalizeParameters [(js ''test_param'', js ''test value with spaces'')] =
     Inr (js ''test_param=test%20value%20with%20spaces'')"
  by (simp add: rfc3986_unreserved_def signer_eval)

text \<open>
  Claim C3: the pairs of the output are sorted by the encoded name in byte (code unit)
  order. On the code this fails: the sort compares with \<open>localeCompare\<close>, and for the
  names \<open>B\<close> and \<open>a\<close>, where \<open>B\<close> is the smaller in code unit order, the output has
  \<open>a\<close> first.
\<close>

theorem normalizeParameters_sorts_by_collation:
  "js ''B'' < js ''a'' \<and>
   normalizeParameters [(js ''B'', js ''2''), (js ''a'', js ''1'')] = Inr (js ''a=1&B=2'')"
  by (simp add: signer_eval)

lemmas rfc3986_eval =
  rfc3986_unreserved_def is_low_surrogate_def is_high_surrogate_def percent_all_def percent_def
  utf8_encode_def hex_digit_def js_def

text \<open>
  Claim C4: the signing key is the percent-encoded consumer secret, \<open>&\<close>, and the
  percent-encoded token secret when one is given. The \<open>&\<close> is there without a token
  secret (\<open>secret\<close> gives \<open>secret&\<close>) and \<open>&\<close>, \<open>=\<close> are escaped, but the encoding is
  \<open>encodeURIComponent\<close>: for the secrets \<open>a!b\<close> and \<open>(x)\<close> the percent-encoding of the
  specification gives \<open>a%21b\<close> and \<open>%28x%29\<close>, and the key the code returns is
  \<open>a!b&(x)\<close>.
\<close>

theorem constructSigningKey_keeps_reserved_marks:
  "constructSigningKey (js ''a!b'') (Some (js ''(x)'')) = Inr (js ''a!b&(x)'') \<and>
   rfc3986_encode (js ''a!b'') = Inr (js ''a%21b'') \<and>
   rfc3986_encode (js ''(x)'') = Inr (js ''%28x%29'') \<and>
   constructSigningKey (js ''secret'') None = Inr (js ''secret&'') \<and>
   constructSigningKey (js ''consumer&secret'') (Some (js ''token=secret'')) =
     Inr (js ''consumer%26secret&token%3Dsecret'')"
  by (simp add: signer_eval rfc3986_eval)

text \<open>
  Claim C5: the base string is the upper-cased method, the percent-encoded URL and the
  percent-encoded normalized parameter string, joined by \<open>&\<close>. The method is
  upper-cased and the example of the specification holds, but the encoding is
  \<open>encodeURIComponent\<close>: for the parameter string \<open>comment=Lunch!\<close> the percent-encoding
  of the specification gives \<open>comment%3DLunch%21\<close>, and the base string the code returns
  ends with \<open>comment%3DLunch!\<close>.
\<close>

theorem constructBaseString_keeps_reserved_marks:
  "constructBaseString sample_runtime (js ''post'')
     (js ''https://api.zaim.net/v2/home/money/payment'') (js ''comment=Lunch!'') =
     Inr (js ''POST&https%3A%2F%2Fapi.zaim.net%2Fv2%2Fhome%2Fmoney%2Fpayment&comment%3DLunch!'') \<and>
   rfc3986_encode (js ''comment=Lunch!'') = Inr (js ''comment%3DLunch%21'') \<and>
   constructBaseString sample_runtime (js ''GET'')
     (js ''https://api.example.com/v2/home/user/verify'') (js ''oauth_consumer_key=test_key'') =
     Inr (js ''GET&https%3A%2F%2Fapi.example.com%2Fv2%2Fhome%2Fuser%2Fverify&oauth_consumer_key%3Dtest_key'')"
  by (simp add: signer_eval rfc3986_eval)

section \<open>Constructing a client\<close>

text \<open>
  Claim C8, as stated, fails: a consumer key that is one space is empty after trimming,
  \<open>TokenStorage.validateConfig\<close> rejects the configuration, and the constructor of the
  client accepts it.
\<close>

theorem new_ZaimApiClient_accepts_blank_key:
  "trim (js '' '') = [] \<and>
   \<not> TokenStorage_validateConfig
       \<lparr>consumerKey = js '' '', consumerSecret = js ''cs'', accessToken = js ''at'',
        accessTokenSecret = js ''ats''\<rparr> \<and>
   new_ZaimApiClient
       \<lparr>consumerKey = js '' '', consumerSecret = js ''cs'', accessToken = js ''at'',
        accessTokenSecret = js ''ats''\<rparr> =
     Inr \<lparr>consumerKey = js '' '', consumerSecret = js ''cs'', accessToken = js ''at'',
          accessTokenSecret = js ''ats''\<rparr>"
  by (simp add: trim_def is_white_space_def TokenStorage_validateConfig_def
      new_ZaimApiClient_def validateConfig_def then_do_def js_def)

text \<open>
  Claim C8, amended. The constructor, which takes no transport and so runs before any
  network activity, returns the client when the four credentials are non-empty strings,
  and throws \<open><field> is required\<close> when one of them is the empty string, naming
  \<open>consumerKey\<close> when that one is empty. The credentials are not trimmed.
\<close>

theorem new_ZaimApiClient_required_fields:
  "(consumerKey config \<noteq> [] \<and> consumerSecret config \<noteq> [] \<and> accessToken config \<noteq> [] \<and>
    accessTokenSecret config \<noteq> [] \<longrightarrow> new_ZaimApiClient config = Inr config) \<and>
   (consumerKey config = [] \<longrightarrow>
      new_ZaimApiClient config = throw_error (js ''consumerKey is required'')) \<and>
   (consumerKey config = [] \<or> consumerSecret config = [] \<or> accessToken config = [] \<or>
    accessTokenSecret config = [] \<longrightarrow>
      (\<exists>name \<in> set [''consumerKey'', ''consumerSecret'', ''accessToken'', ''accessTokenSecret''].
         new_ZaimApiClient config = throw_error (js name @ js '' is required'')))"
  by (auto simp: new_ZaimApiClient_def validateConfig_def then_do_def throw_error_def js_def)

theorem new_ZaimApiClient_required_fields_witness:
  "new_ZaimApiClient sample_config = Inr sample_config \<and>
   new_ZaimApiClient (sample_config\<lparr>consumerKey := []\<rparr>) =
     throw_error (js ''consumerKey is required'') \<and>
   (\<exists>name \<in> set [''consumerKey'', ''consumerSecret'', ''accessToken'', ''accessTokenSecret''].
      new_ZaimApiClient (sample_config\<lparr>accessToken := []\<rparr>) =
        throw_error (js name @ js '' is required''))"
  using new_ZaimApiClient_required_fields [of sample_config]
    new_ZaimApiClient_required_fields [of "sample_config\<lparr>consumerKey := []\<rparr>"]
    new_ZaimApiClient_required_fields [of "sample_config\<lparr>accessToken := []\<rparr>"]
  by (simp add: sample_config_def js_def)

section \<open>Responses and errors\<close>

lemmas client_eval =
  js_def then_do_def throw_error_def handleResponse_def ok_def get_property_def js_or_def
  template_string_def decimal.simps number_to_string_def

lemma handleResponse_cases:
  assumes "json_body r \<noteq> Inr JNull"
  shows "handleResponse r =
     (if ok r then Inr (case json_body r of Inl e \<Rightarrow> JObject [] | Inr v \<Rightarrow> v)
      else then_do (template_string (error_value r)) (\<lambda>errorMessage.
           throw_error
             (js ''Zaim API Error: '' @ decimal (status r) @ js '' - '' @ errorMessage)))"
proof (cases "json_body r")
  case (Inl e)
  then show ?thesis
    by (simp add: handleResponse_def error_value_def get_property_def field_def then_do_def
        js_or_def js_def)
next
  case (Inr v)
  with assms have "v \<noteq> JNull" by simp
  with Inr show ?thesis
    by (cases v)
      (simp_all add: handleResponse_def error_value_def get_property_def field_def then_do_def
        js_or_def Let_def)
qed

lemma handleResponse_unconvertible_message:
  "handleResponse
     \<lparr>status = 500,
      json_body = Inr (JObject [(js ''message'', JObject [(js ''toString'', JNumber 1)])])\<rparr> =
   Inl cannot_convert"
  by (simp add: handleResponse_def ok_def get_property_def then_do_def js_or_def
      template_string_def js_def)

lemma starts_with_Nil: "starts_with xs []"
  by (cases xs) simp_all

lemma starts_with_append: "starts_with (xs @ ys) xs"
  by (induction xs) (simp_all add: starts_with_Nil)

lemma api_error_marker:
  "string_includes (js ''Zaim API Error: '' @ rest) (js ''Zaim API Error'')"
proof -
  have "js ''Zaim API Error: '' @ rest = js ''Zaim API Error'' @ (js '': '' @ rest)"
    by (simp add: js_def)
  moreover have "string_includes (js ''Zaim API Error'' @ (js '': '' @ rest)) (js ''Zaim API Error'')"
    using starts_with_append [of "js ''Zaim API Error''" "js '': '' @ rest"]
    by (cases "js ''Zaim API Error'' @ (js '': '' @ rest)") (simp_all add: js_def)
  ultimately show ?thesis by simp
qed

lemmas header_eval =
  generateAuthHeader_def generateOAuthSignature_def allParams_def oauthParams_def spread_def
  set_property_def assign_property_def array_index_def is_digit_def queryParams_of_def
  queryString_def signed_url_def buildAuthorizationHeader_def generateNonce_def generateTimestamp_def decimal.simps
  buildUrl_def baseUrl_def buildRequestParameters_def request_options_of_def

lemma sample_header:
  "generateAuthHeader sample_runtime sample_config sample_environment GET
     (buildUrl (js ''/v2/home/user/verify'') None) (buildRequestParameters None) =
   Inr (js ''OAuth oauth_consumer_key='' @ [0x22] @ js ''ck'' @ [0x22] @
        js '', oauth_nonce='' @ [0x22] @ js ''4fzyo82mvyr9q8k3x1b2c7'' @ [0x22] @
        js '', oauth_signature_method='' @ [0x22] @ js ''HMAC-SHA1'' @ [0x22] @
        js '', oauth_timestamp='' @ [0x22] @ js ''1700000000'' @ [0x22] @
        js '', oauth_token='' @ [0x22] @ js ''at'' @ [0x22] @
        js '', oauth_version='' @ [0x22] @ js ''1.0'' @ [0x22] @
        js '', oauth_signature='' @ [0x22] @ js ''c2lnbmF0dXJl'' @ [0x22])"
  by (simp add: header_eval signer_eval sample_config_def sample_environment_def sample_runtime_def)



lemma sample_header':
  "generateAuthHeader sample_runtime sample_config sample_environment GET
     (buildUrl (js ''/v2/home/user/verify'') None) (buildRequestParameters None) =
   Inr sample_header_value"
  unfolding sample_header_value_def by (rule sample_header)

lemma sample_options:
  "request_options_of GET sample_header_value None (buildRequestParameters None) = Inr sample_options"
  by (simp add: request_options_of_def sample_options_def)

lemma request_body_fetch:
  assumes "generateAuthHeader rt config env method (buildUrl endpoint queryParams)
             (buildRequestParameters data) = Inr authHeader"
    and "request_options_of method authHeader data (buildRequestParameters data) = Inr options"
  shows "request_body rt fetch config env method endpoint data queryParams =
           then_do (fetch (buildUrl endpoint queryParams) options) handleResponse"
  using assms by (simp add: request_body_def then_do_def Let_def)

text \<open>
  Claim C7. A response with status 500 whose body is the JSON value \<open>null\<close>: reading
  \<open>message\<close> from \<open>null\<close> throws a \<open>TypeError\<close>, no API error is built, and
  \<open>request\<close> reports a network error. For a body other than \<open>null\<close>,
  \<open>handleResponse_cases\<close> gives the result: the parsed body for a status in 200..299,
  and otherwise the API error built from the selected value, or the \<open>TypeError\<close> of its
  conversion to a string.
\<close>

theorem handleResponse_null_body:
  "handleResponse \<lparr>status = 500, json_body = Inr JNull\<rparr> =
     Inl (ErrorObject TypeError
            (js ''Cannot read properties of null (reading '' @ [0x27] @ js ''message'' @ [0x27] @ js '')''))
   \<and> request sample_runtime (\<lambda>url options. Inr \<lparr>status = 500, json_body = Inr JNull\<rparr>)
         sample_config sample_environment GET (js ''/v2/home/user/verify'') None None =
       throw_error
         (js ''Network error occurred: Cannot read properties of null (reading '' @ [0x27] @
          js ''message'' @ [0x27] @ js '')'')"
proof -
  have h: "handleResponse \<lparr>status = 500, json_body = Inr JNull\<rparr> =
     Inl (ErrorObject TypeError
            (js ''Cannot read properties of null (reading '' @ [0x27] @ js ''message'' @ [0x27] @ js '')''))"
    by (simp add: handleResponse_def ok_def get_property_def then_do_def)
  have "request_body sample_runtime (\<lambda>url options. Inr \<lparr>status = 500, json_body = Inr JNull\<rparr>)
          sample_config sample_environment GET (js ''/v2/home/user/verify'') None None =
        handleResponse \<lparr>status = 500, json_body = Inr JNull\<rparr>"
    by (simp add: request_body_fetch [OF sample_header' sample_options] then_do_def)
  with h show ?thesis
    by (simp add: request_def throw_error_def js_def)
qed

text \<open>
  Claim C9, as stated, fails: the transport throws an error whose message contains
  \<open>Zaim API Error\<close>, and \<open>request\<close> rethrows it as it is instead of wrapping it.
\<close>

theorem request_rethrows_marked_transport_error:
  "request sample_runtime (\<lambda>url options. Inl (ErrorObject TypeError (js ''Zaim API Error: forged'')))
     sample_config sample_environment GET (js ''/v2/home/user/verify'') None None =
   Inl (ErrorObject TypeError (js ''Zaim API Error: forged''))"
proof -
  have "request_body sample_runtime
          (\<lambda>url options. Inl (ErrorObject TypeError (js ''Zaim API Error: forged'')))
          sample_config sample_environment GET (js ''/v2/home/user/verify'') None None =
        Inl (ErrorObject TypeError (js ''Zaim API Error: forged''))"
    by (simp add: request_body_fetch [OF sample_header' sample_options] then_do_def)
  then show ?thesis
    by (simp add: request_def js_def)
qed

text \<open>
  Claim C9, amended. Once the header and the options are built: an \<open>Error\<close> thrown by
  the transport whose message does not contain \<open>Zaim API Error\<close> becomes
  \<open>Network error occurred: <message>\<close>; one whose message contains it is rethrown
  unchanged; a thrown value that is not an \<open>Error\<close> becomes
  \<open>Unknown network error occurred\<close>; an API error raised by \<open>handleResponse\<close> is
  rethrown unchanged, and it is raised for a received response outside 200..299 whose
  body is not \<open>null\<close> and whose selected message converts to a string; and a wrapped
  network error is never equal to an API error.
\<close>

theorem request_error_classification:
  assumes "generateAuthHeader rt config env method (buildUrl endpoint queryParams)
             (buildRequestParameters data) = Inr authHeader"
    and "request_options_of method authHeader data (buildRequestParameters data) = Inr options"
  shows
    "(fetch (buildUrl endpoint queryParams) options = Inl (ErrorObject cls message) \<and>
      \<not> string_includes message (js ''Zaim API Error'') \<longrightarrow>
        request rt fetch config env method endpoint data queryParams =
          throw_error (js ''Network error occurred: '' @ message)) \<and>
     (fetch (buildUrl endpoint queryParams) options = Inl (ErrorObject cls message) \<and>
      string_includes message (js ''Zaim API Error'') \<longrightarrow>
        request rt fetch config env method endpoint data queryParams =
          Inl (ErrorObject cls message)) \<and>
     (fetch (buildUrl endpoint queryParams) options = Inl NonErrorValue \<longrightarrow>
        request rt fetch config env method endpoint data queryParams =
          throw_error (js ''Unknown network error occurred'')) \<and>
     (fetch (buildUrl endpoint queryParams) options = Inr r \<and>
      handleResponse r = throw_error (js ''Zaim API Error: '' @ rest) \<longrightarrow>
        request rt fetch config env method endpoint data queryParams =
          throw_error (js ''Zaim API Error: '' @ rest)) \<and>
     (fetch (buildUrl endpoint queryParams) options = Inr r \<and> \<not> ok r \<and>
      json_body r \<noteq> Inr JNull \<and> template_string (error_value r) = Inr msg \<longrightarrow>
        request rt fetch config env method endpoint data queryParams =
          throw_error (js ''Zaim API Error: '' @ decimal (status r) @ js '' - '' @ msg)) \<and>
     (throw_error (js ''Network error occurred: '' @ message) :: thrown + json) \<noteq>
        throw_error (js ''Zaim API Error: '' @ rest')"
proof (intro conjI impI)
  note rb = request_body_fetch [OF assms]
  have api: "request rt fetch config env method endpoint data queryParams =
      throw_error (js ''Zaim API Error: '' @ x)"
    if "fetch (buildUrl endpoint queryParams) options = Inr r"
      "handleResponse r = throw_error (js ''Zaim API Error: '' @ x)" for x
    using that by (simp add: request_def rb then_do_def throw_error_def api_error_marker)
  {
    assume "fetch (buildUrl endpoint queryParams) options = Inl (ErrorObject cls message) \<and>
      \<not> string_includes message (js ''Zaim API Error'')"
    then show "request rt fetch config env method endpoint data queryParams =
          throw_error (js ''Network error occurred: '' @ message)"
      by (simp add: request_def rb then_do_def)
  next
    assume "fetch (buildUrl endpoint queryParams) options = Inl (ErrorObject cls message) \<and>
      string_includes message (js ''Zaim API Error'')"
    then show "request rt fetch config env method endpoint data queryParams =
          Inl (ErrorObject cls message)"
      by (simp add: request_def rb then_do_def)
  next
    assume "fetch (buildUrl endpoint queryParams) options = Inl NonErrorValue"
    then show "request rt fetch config env method endpoint data queryParams =
          throw_error (js ''Unknown network error occurred'')"
      by (simp add: request_def rb then_do_def)
  next
    assume "fetch (buildUrl endpoint queryParams) options = Inr r \<and>
      handleResponse r = throw_error (js ''Zaim API Error: '' @ rest)"
    then show "request rt fetch config env method endpoint data queryParams =
          throw_error (js ''Zaim API Error: '' @ rest)"
      by (intro api) simp_all
  next
    assume a: "fetch (buildUrl endpoint queryParams) options = Inr r \<and> \<not> ok r \<and>
      json_body r \<noteq> Inr JNull \<and> template_string (error_value r) = Inr msg"
    then have "handleResponse r =
        throw_error (js ''Zaim API Error: '' @ (decimal (status r) @ js '' - '' @ msg))"
      by (simp add: handleResponse_cases then_do_def)
    with a have "request rt fetch config env method endpoint data queryParams =
        throw_error (js ''Zaim API Error: '' @ (decimal (status r) @ js '' - '' @ msg))"
      by (intro api) simp_all
    then show "request rt fetch config env method endpoint data queryParams =
          throw_error (js ''Zaim API Error: '' @ decimal (status r) @ js '' - '' @ msg)"
      by simp
  }
  show "(throw_error (js ''Network error occurred: '' @ message) :: thrown + json) \<noteq>
        throw_error (js ''Zaim API Error: '' @ rest')"
    by (simp add: throw_error_def js_def)
qed

theorem request_error_classification_witness:
  "\<not> string_includes (js ''Network error'') (js ''Zaim API Error'') \<and>
   request sample_runtime (\<lambda>url options. Inl (ErrorObject PlainError (js ''Network error'')))
     sample_config sample_environment GET (js ''/v2/home/user/verify'') None None =
     throw_error (js ''Network error occurred: Network error'') \<and>
   \<not> ok \<lparr>status = 401, json_body = Inr (JObject [(js ''error'', JString (js ''Unauthorized''))])\<rparr> \<and>
   template_string (error_value
     \<lparr>status = 401, json_body = Inr (JObject [(js ''error'', JString (js ''Unauthorized''))])\<rparr>) =
     Inr (js ''Unauthorized'') \<and>
   request sample_runtime
     (\<lambda>url options. Inr \<lparr>status = 401,
        json_body = Inr (JObject [(js ''error'', JString (js ''Unauthorized''))])\<rparr>)
     sample_config sample_environment GET (js ''/v2/home/user/verify'') None None =
     throw_error (js ''Zaim API Error: 401 - Unauthorized'')"
proof -
  let ?r = "\<lparr>status = 401,
    json_body = Inr (JObject [(js ''error'', JString (js ''Unauthorized''))])\<rparr>"
  have n: "\<not> string_includes (js ''Network error'') (js ''Zaim API Error'')"
    by (simp add: js_def)
  have k: "\<not> ok ?r"
    by (simp add: ok_def)
  have b: "json_body ?r \<noteq> Inr JNull"
    by simp
  have t: "template_string (error_value ?r) = Inr (js ''Unauthorized'')"
    by (simp add: error_value_def field_def template_string_def js_def)
  have d: "js ''Zaim API Error: '' @ decimal (status ?r) @ js '' - '' @ js ''Unauthorized'' =
      js ''Zaim API Error: 401 - Unauthorized''"
    by (simp add: decimal.simps js_def)
  have "request sample_runtime (\<lambda>url options. Inl (ErrorObject PlainError (js ''Network error'')))
      sample_config sample_environment GET (js ''/v2/home/user/verify'') None None =
      throw_error (js ''Network error occurred: '' @ js ''Network error'')"
    using request_error_classification [OF sample_header' sample_options,
        where fetch = "\<lambda>url options. Inl (ErrorObject PlainError (js ''Network error''))"
          and cls = PlainError and message = "js ''Network error''"] n
    by blast
  moreover have "js ''Network error occurred: '' @ js ''Network error'' =
      js ''Network error occurred: Network error''"
    by (simp add: js_def)
  moreover have "request sample_runtime (\<lambda>url options. Inr ?r)
      sample_config sample_environment GET (js ''/v2/home/user/verify'') None None =
      throw_error (js ''Zaim API Error: '' @ decimal (status ?r) @ js '' - '' @ js ''Unauthorized'')"
    using request_error_classification [OF sample_header' sample_options,
        where fetch = "\<lambda>url options. Inr ?r" and r = ?r and msg = "js ''Unauthorized''"] k b t
    by blast
  ultimately show ?thesis
    using n k t d by simp
qed

section \<open>Objects and the merged parameters\<close>




















lemma unat_of_nat_byte: "b < 256 \<Longrightarrow> unat (of_nat b :: code_unit) = b"
  by (simp add: unat_of_nat)






lemmas query_eval =
  queryParams_of_def queryString_def URLSearchParams_def urlencoded_parse_def
  utf8_bytes_def is_high_surrogate_def is_low_surrogate_def utf8_encode_def split_first_def
  form_decode_def utf8_step_def utf8_lead_def from_code_points_def utf16_units_def
  set_property_def assign_property_def array_index_def is_digit_def js_def


section \<open>The query string is read back as it is sent\<close>

lemma form_decode_plus:
  "form_decode bytes =
     from_code_points (utf8_decode Start (percent_decode (map plus_to_space bytes)))"
  by (simp add: form_decode_def plus_to_space_def [abs_def])

lemma code_points_scalar: "\<forall>cp \<in> set (code_points s). scalar_value cp"
proof (induction s rule: code_points.induct)
  case 1
  then show ?case by simp
next
  case (2 c cs)
  have r: "scalar_value 0xFFFD"
    by (simp add: scalar_value_def)
  show ?case
  proof (cases "is_high_surrogate c")
    case high: True
    show ?thesis
    proof (cases cs)
      case Nil
      with high r show ?thesis by simp
    next
      case (Cons d ds)
      show ?thesis
      proof (cases "is_low_surrogate d")
        case True
        with "2.IH"(1) [OF high Cons True] high Cons show ?thesis
          by (simp add: surrogate_pair_scalar)
      next
        case False
        with "2.IH"(2) [OF high Cons False] high Cons r show ?thesis
          by simp
      qed
    qed
  next
    case not_high: False
    show ?thesis
    proof (cases "is_low_surrogate c")
      case True
      with "2.IH"(3) [OF not_high True] not_high r show ?thesis
        by simp
    next
      case False
      with "2.IH"(4) [OF not_high False] not_high show ?thesis
        by (simp add: unit_scalar)
    qed
  qed
qed

lemma utf8_bytes_decode: "utf8_decode Start (utf8_bytes s) = code_points s"
  using utf8_roundtrip_list [OF code_points_scalar, of s "[]"]
  by (simp add: utf8_bytes_def)

lemma utf8_bytes_small: "\<forall>b \<in> set (utf8_bytes s). b < 256"
proof -
  have "\<forall>b \<in> set (utf8_encode cp). b < 256" if "cp \<in> set (code_points s)" for cp
    using code_points_scalar that by (intro utf8_encode_bytes_all) (auto simp: scalar_value_def)
  then show ?thesis
    by (auto simp: utf8_bytes_def)
qed

lemma utf8_bytes_ascii:
  assumes "\<forall>c \<in> set t. unat c < 0x80"
  shows "utf8_bytes t = map unat t"
  using assms
proof (induction t)
  case Nil
  then show ?case by (simp add: utf8_bytes_def)
next
  case (Cons c t)
  then have c: "unat c < 0x80" and t: "utf8_bytes t = map unat t"
    by simp_all
  from c have "\<not> is_high_surrogate c" "\<not> is_low_surrogate c"
    by (simp_all add: is_high_surrogate_def is_low_surrogate_def word_le_nat_alt)
  with c t show ?case
    by (simp add: utf8_bytes_def utf8_encode_def)
qed

lemma hex_digit_form_unit: "n < 16 \<Longrightarrow> form_unit (hex_digit n)"
proof -
  assume n: "n < 16"
  have u: "unat (hex_digit n) = (if n < 10 then 0x30 + n else 0x37 + n)"
    using n by (rule unat_hex_digit)
  have "hex_digit n \<noteq> 0x26" "hex_digit n \<noteq> 0x3D" "hex_digit n \<noteq> 0x3F"
    using u n by (auto dest!: arg_cong [where f = unat] split: if_splits)
  with u n show ?thesis
    by (auto simp: form_unit_def)
qed

lemma form_encode_byte_units:
  assumes "b < 256" "c \<in> set (form_encode_byte b)"
  shows "form_unit c"
proof -
  have d: "b div 16 < 16" "b mod 16 < 16"
    using assms(1) by (simp_all add: less_mult_imp_div_less)
  have s: "form_unit (of_nat b)" if "form_safe_byte b"
  proof -
    from that have "b < 0x80" "b \<noteq> 0x26" "b \<noteq> 0x3D" "b \<noteq> 0x3F"
      by (auto simp: form_safe_byte_def)
    moreover from this have "unat (of_nat b :: code_unit) = b"
      by (intro unat_of_nat_byte) simp
    ultimately show ?thesis
      by (auto simp: form_unit_def)
  qed
  have p: "form_unit (0x25 :: code_unit)" "form_unit (0x2B :: code_unit)"
    by (simp_all add: form_unit_def)
  from assms(2) show ?thesis
    using s p hex_digit_form_unit [OF d(1)] hex_digit_form_unit [OF d(2)]
    by (auto simp: form_encode_byte_def percent_def split: if_splits)
qed

lemma form_encode_units: "\<forall>c \<in> set (form_encode s). form_unit c"
  using utf8_bytes_small [of s]
  by (auto simp: form_encode_def dest: form_encode_byte_units)

lemma percent_decode_form_byte:
  assumes "b < 256"
  shows "percent_decode (map plus_to_space (map unat (form_encode_byte b)) @ r) =
     b # percent_decode r"
proof -
  have d: "b div 16 < 16" "b mod 16 < 16"
    using assms by (simp_all add: less_mult_imp_div_less)
  have h: "unat (hex_digit n) \<noteq> 0x2B" if "n < 16" for n
    using unat_hex_digit [OF that] by (auto split: if_splits)
  consider (space) "b = 0x20" | (safe) "b \<noteq> 0x20" "form_safe_byte b"
    | (other) "b \<noteq> 0x20" "\<not> form_safe_byte b"
    by blast
  then show ?thesis
  proof cases
    case space
    then show ?thesis
      by (simp add: form_encode_byte_def plus_to_space_def)
  next
    case safe
    then have "b \<noteq> 0x2B" "b \<noteq> 0x25"
      by (auto simp: form_safe_byte_def)
    with safe assms show ?thesis
      by (simp add: form_encode_byte_def plus_to_space_def unat_of_nat_byte)
  next
    case other
    have m: "map plus_to_space (map unat (percent b)) = map unat (percent b)"
      using h [OF d(1)] h [OF d(2)] by (simp add: percent_def plus_to_space_def)
    from other have "form_encode_byte b = percent b"
      by (simp add: form_encode_byte_def)
    then show ?thesis
      by (simp only: m percent_decode_percent [OF assms])
  qed
qed

lemma percent_decode_form_bytes:
  assumes "\<forall>b \<in> set bs. b < 256"
  shows "percent_decode
     (map plus_to_space (map unat (concat (map form_encode_byte bs)))) = bs"
  using assms
proof (induction bs)
  case Nil
  then show ?case by simp
next
  case (Cons b bs)
  then have b: "b < 256" and
    IH: "percent_decode (map plus_to_space (map unat (concat (map form_encode_byte bs)))) = bs"
    by simp_all
  have "percent_decode (map plus_to_space (map unat (form_encode_byte b)) @
      map plus_to_space (map unat (concat (map form_encode_byte bs)))) = b # bs"
    by (simp only: percent_decode_form_byte [OF b] IH)
  then show ?case by simp
qed

lemma form_decode_encode: "form_decode (map unat (form_encode s)) = toWellFormed s"
  unfolding form_decode_plus form_encode_def
  by (simp only: percent_decode_form_bytes [OF utf8_bytes_small] utf8_bytes_decode toWellFormed_def)

lemma split_on_none: "sep \<notin> set x \<Longrightarrow> split_on sep x = [x]"
  by (induction x) auto

lemma split_on_append:
  "sep \<notin> set x \<Longrightarrow> split_on sep (x @ sep # r) = x # split_on sep r"
  by (induction x) auto

lemma split_on_join:
  assumes "xs \<noteq> []" "\<forall>x \<in> set xs. sep \<notin> set x"
  shows "split_on sep (join [sep] xs) = xs"
  using assms
proof (induction xs)
  case Nil
  then show ?case by simp
next
  case (Cons x xs)
  show ?case
  proof (cases xs)
    case Nil
    with Cons.prems show ?thesis by (simp add: split_on_none)
  next
    case (Cons y ys)
    with Cons.IH Cons.prems have "split_on sep (join [sep] (y # ys)) = y # ys" "sep \<notin> set x"
      by simp_all
    with Cons show ?thesis
      by (simp add: split_on_append)
  qed
qed

lemma split_first_append:
  "sep \<notin> set n \<Longrightarrow> split_first sep (n @ sep # v) = (n, v)"
  by (induction n) (auto simp: split_first_def)

lemma map_join: "map f (join sep xs) = join (map f sep) (map (map f) xs)"
  by (induction sep xs rule: join.induct) simp_all

lemma form_encode_no_separator:
  "0x26 \<notin> set (map unat (form_encode s))" "0x3D \<notin> set (map unat (form_encode s))"
    "0x3F \<notin> set (form_encode s)" "\<forall>c \<in> set (form_encode s). unat c < 0x80"
proof -
  have u: "form_unit c" if "c \<in> set (form_encode s)" for c
    using form_encode_units that by blast
  have "unat c \<noteq> 0x26 \<and> unat c \<noteq> 0x3D" if "c \<in> set (form_encode s)" for c
  proof -
    from u [OF that] have "c \<noteq> 0x26" "c \<noteq> 0x3D"
      by (simp_all add: form_unit_def)
    then show ?thesis
      by (simp add: word_unat_eq_iff)
  qed
  then show "0x26 \<notin> set (map unat (form_encode s))" "0x3D \<notin> set (map unat (form_encode s))"
    by auto
  show "0x3F \<notin> set (form_encode s)"
    using u by (auto simp: form_unit_def)
  show "\<forall>c \<in> set (form_encode s). unat c < 0x80"
    using u by (auto simp: form_unit_def)
qed

lemma set_join: "set (join sep xs) \<subseteq> set sep \<union> \<Union> (set ` set xs)"
  by (induction sep xs rule: join.induct) auto

lemma serialize_units:
  assumes "c \<in> set (urlencoded_serialize ts)"
  shows "unat c < 0x80" "c \<noteq> 0x3F"
proof -
  have p: "form_unit d \<or> d = 0x3D"
    if "d \<in> set (form_encode k @ js ''='' @ form_encode v)" for d k v
    using that form_encode_units [of k] form_encode_units [of v] by (auto simp: js_def)
  from assms set_join [of "js ''&''" "map (\<lambda>(name, val). form_encode name @ js ''='' @ form_encode val) ts"]
  have "c = 0x26 \<or> (\<exists>k v. c \<in> set (form_encode k @ js ''='' @ form_encode v))"
    unfolding urlencoded_serialize_def by (auto simp: js_def)
  with p have "c = 0x26 \<or> c = 0x3D \<or> form_unit c"
    by blast
  then show "unat c < 0x80" "c \<noteq> 0x3F"
    by (auto simp: form_unit_def)
qed

lemma serialize_nonempty: "ts \<noteq> [] \<Longrightarrow> urlencoded_serialize ts \<noteq> []"
proof (cases ts)
  case Nil
  assume "ts \<noteq> []"
  with Nil show ?thesis by simp
next
  case (Cons p ps)
  obtain k v where p: "p = (k, v)" by (cases p)
  show ?thesis
    unfolding Cons p urlencoded_serialize_def by (cases ps) (simp_all add: js_def)
qed

lemma URLSearchParams_serialize:
  "URLSearchParams (urlencoded_serialize ts) =
     map (\<lambda>(name, val). (toWellFormed name, toWellFormed val)) ts"
proof -
  let ?S = "urlencoded_serialize ts"
  let ?piece = "\<lambda>(name, val). map unat (form_encode name) @ 0x3D # map unat (form_encode val)"
  have init: "(case ?S of [] \<Rightarrow> [] | c # cs \<Rightarrow> if c = 0x3F then cs else ?S) = ?S"
    using serialize_units(2) [of _ ts] by (cases ?S) auto
  have bytes: "utf8_bytes ?S = join [0x26] (map ?piece ts)"
  proof -
    have "utf8_bytes ?S = map unat ?S"
      using serialize_units(1) [of _ ts] by (intro utf8_bytes_ascii) blast
    also have "\<dots> = join [0x26] (map ?piece ts)"
      unfolding urlencoded_serialize_def map_join
      by (simp add: js_def comp_def case_prod_unfold)
    finally show ?thesis .
  qed
  have dec: "(form_decode (fst (split_first 0x3D (?piece p))),
              form_decode (snd (split_first 0x3D (?piece p)))) =
             (toWellFormed (fst p), toWellFormed (snd p))" for p
  proof -
    obtain k v where p: "p = (k, v)" by (cases p)
    have "split_first 0x3D (map unat (form_encode k) @ 0x3D # map unat (form_encode v)) =
        (map unat (form_encode k), map unat (form_encode v))"
      using form_encode_no_separator(2) [of k] by (rule split_first_append)
    then show ?thesis
      by (simp add: p form_decode_encode)
  qed
  show ?thesis
  proof (cases "ts = []")
    case True
    then show ?thesis
      by (simp add: URLSearchParams_def urlencoded_parse_def urlencoded_serialize_def
          utf8_bytes_def)
  next
    case False
    have "\<forall>x \<in> set (map ?piece ts). 0x26 \<notin> set x"
      using form_encode_no_separator(1) by auto
    with False have "split_on 0x26 (join [0x26] (map ?piece ts)) = map ?piece ts"
      by (intro split_on_join) simp_all
    moreover have "filter (\<lambda>bytes. bytes \<noteq> []) (map ?piece ts) = map ?piece ts"
      by (induction ts) auto
    ultimately have "URLSearchParams ?S =
        map (\<lambda>bytes. (form_decode (fst (split_first 0x3D bytes)),
                      form_decode (snd (split_first 0x3D bytes)))) (map ?piece ts)"
      unfolding URLSearchParams_def init urlencoded_parse_def bytes by simp
    also have "\<dots> = map (\<lambda>p. (toWellFormed (fst p), toWellFormed (snd p))) ts"
      unfolding map_map comp_def by (simp only: dec)
    finally show ?thesis
      by (simp add: case_prod_unfold)
  qed
qed

lemma buildUrl_parts:
  assumes "0x3F \<notin> set endpoint" "q \<noteq> []"
  shows "split_on 0x3F (buildUrl endpoint (Some q)) =
     [baseUrl @ endpoint, urlencoded_serialize (map (\<lambda>(key, val). (key, String_of val)) q)]"
proof -
  let ?S = "urlencoded_serialize (map (\<lambda>(key, val). (key, String_of val)) q)"
  have b: "0x3F \<notin> set (baseUrl @ endpoint)"
    using assms(1) by (simp add: baseUrl_def js_def)
  have s: "0x3F \<notin> set ?S"
    using serialize_units(2) by blast
  have "buildUrl endpoint (Some q) = (baseUrl @ endpoint) @ 0x3F # ?S"
    using assms(2) by (simp add: buildUrl_def js_def)
  then show ?thesis
    by (simp only: split_on_append [OF b] split_on_none [OF s])
qed

lemma toWellFormed_id:
  assumes "\<forall>c \<in> set s. \<not> is_high_surrogate c \<and> \<not> is_low_surrogate c"
  shows "toWellFormed s = s"
  using assms
  by (induction s) (simp_all add: toWellFormed_def from_code_points_def utf16_units_unit)

lemma queryParams_of_buildUrl:
  assumes "0x3F \<notin> set endpoint" "queryParams \<noteq> []"
  shows "queryParams_of (buildUrl endpoint (Some queryParams)) =
     foldl (\<lambda>obj (key, val). assign_property key val obj) [] (sent_pairs queryParams)"
proof -
  let ?S = "urlencoded_serialize (map (\<lambda>(key, val). (key, String_of val)) queryParams)"
  have r: "URLSearchParams ?S = sent_pairs queryParams"
    unfolding URLSearchParams_serialize sent_pairs_def
    by (simp add: case_prod_unfold comp_def)
  have "?S \<noteq> []"
    using assms(2) by (intro serialize_nonempty) simp
  then show ?thesis
    by (simp add: queryParams_of_def queryString_def buildUrl_parts [OF assms] r)
qed

lemmas url_eval =
  buildUrl_def baseUrl_def urlencoded_serialize_def form_encode_def form_encode_byte_def
  form_safe_byte_def percent_def hex_digit_def


text \<open>
  The parsed pairs are stored by assignment, \<open>queryParams[key] = value\<close>: a pair
  named \<open>__proto__\<close> is sent and not stored, and of two pairs sent under one name the
  second replaces the first.
\<close>

lemma queryParams_of_skips_proto:
  "buildUrl (js ''/v2/home/money'') (Some [(js ''__proto__'', PString (js ''x''))]) =
     js ''https://api.zaim.net/v2/home/money?__proto__=x'' \<and>
   queryParams_of
     (buildUrl (js ''/v2/home/money'') (Some [(js ''__proto__'', PString (js ''x''))])) = []"
proof -
  have "0x3F \<notin> set (js ''/v2/home/money'')"
    by (simp add: js_def)
  then have "queryParams_of
      (buildUrl (js ''/v2/home/money'') (Some [(js ''__proto__'', PString (js ''x''))])) =
      foldl (\<lambda>obj (key, val). assign_property key val obj) []
        (sent_pairs [(js ''__proto__'', PString (js ''x''))])"
    by (rule queryParams_of_buildUrl) simp
  also have "sent_pairs [(js ''__proto__'', PString (js ''x''))] = [(js ''__proto__'', js ''x'')]"
    by (simp add: sent_pairs_def toWellFormed_def query_eval)
  finally show ?thesis
    by (simp add: url_eval query_eval)
qed

lemma queryParams_of_merges_replaced_names:
  "buildUrl (js ''/v2/home/money'')
     (Some [([0xD800], PString (js ''a'')), ([0xDC00], PString (js ''b''))]) =
     js ''https://api.zaim.net/v2/home/money?%EF%BF%BD=a&%EF%BF%BD=b'' \<and>
   queryParams_of
     (buildUrl (js ''/v2/home/money'')
        (Some [([0xD800], PString (js ''a'')), ([0xDC00], PString (js ''b''))])) =
     [([0xFFFD], js ''b'')]"
proof -
  have "0x3F \<notin> set (js ''/v2/home/money'')"
    by (simp add: js_def)
  then have "queryParams_of
      (buildUrl (js ''/v2/home/money'')
         (Some [([0xD800], PString (js ''a'')), ([0xDC00], PString (js ''b''))])) =
      foldl (\<lambda>obj (key, val). assign_property key val obj) []
        (sent_pairs [([0xD800], PString (js ''a'')), ([0xDC00], PString (js ''b''))])"
    by (rule queryParams_of_buildUrl) simp
  also have "sent_pairs [([0xD800], PString (js ''a'')), ([0xDC00], PString (js ''b''))] =
      [([0xFFFD], js ''a''), ([0xFFFD], js ''b'')]"
    by (simp add: sent_pairs_def toWellFormed_def query_eval)
  finally show ?thesis
    by (simp add: url_eval query_eval)
qed



end
